theory Spec2Isabelle
  imports Complex_Main "HOL-Library.Sublist" "HOL-Library.Log_Nat"
begin

section \<open>Python strings\<close>

text \<open>
  The scorer of \<^verbatim>\<open>fraud_scorer_sample.py\<close> works on Python \<^verbatim>\<open>str\<close> values. A
  \<^verbatim>\<open>str\<close> is modelled as a \<^typ>\<open>string\<close>; a \<^typ>\<open>char\<close> stands for the Unicode code
  point of the same number (0 to 255). The character tests below are those of Python 3
  on that range.
\<close>

definition code_point :: "char \<Rightarrow> nat" where
  "code_point c = of_char c"

text \<open>\<^verbatim>\<open>\d\<close> of the \<^verbatim>\<open>re\<close> module (decimal digits); \<^verbatim>\<open>\D\<close> is its complement.\<close>

definition re_digit :: "char \<Rightarrow> bool" where
  "re_digit c = (48 \<le> code_point c \<and> code_point c \<le> 57)"

text \<open>\<^verbatim>\<open>str.isdigit\<close>: the decimal digits and the superscripts two, three and one.\<close>

definition py_isdigit :: "char \<Rightarrow> bool" where
  "py_isdigit c = (re_digit c \<or> code_point c = 178 \<or> code_point c = 179 \<or> code_point c = 185)"

definition py_isspace :: "char \<Rightarrow> bool" where
  "py_isspace c = ((9 \<le> code_point c \<and> code_point c \<le> 13) \<or> (28 \<le> code_point c \<and> code_point c \<le> 32)
     \<or> code_point c = 133 \<or> code_point c = 160)"

definition ascii_upper :: "char \<Rightarrow> bool" where
  "ascii_upper c = (65 \<le> code_point c \<and> code_point c \<le> 90)"

definition ascii_lower :: "char \<Rightarrow> bool" where
  "ascii_lower c = (97 \<le> code_point c \<and> code_point c \<le> 122)"

definition lower_char :: "char \<Rightarrow> char" where
  "lower_char c =
     (if ascii_upper c \<or> (192 \<le> code_point c \<and> code_point c \<le> 222 \<and> code_point c \<noteq> 215)
      then char_of (code_point c + 32) else c)"

text \<open>\<^verbatim>\<open>str(s)\<close> of a string is the string itself.\<close>

definition py_str :: "string \<Rightarrow> string" where
  "py_str s = s"

text \<open>\<^verbatim>\<open>s.lower()\<close>, \<^verbatim>\<open>s.strip()\<close>, \<^verbatim>\<open>s.split(sep)[-1]\<close> for a one-character separator,
  \<^verbatim>\<open>sep.join(xs)\<close> and the substring test \<^verbatim>\<open>sub in s\<close>.\<close>

definition py_lower :: "string \<Rightarrow> string" where
  "py_lower s = map lower_char s"

definition py_strip :: "string \<Rightarrow> string" where
  "py_strip s = rev (dropWhile py_isspace (rev (dropWhile py_isspace s)))"

definition split_last :: "char \<Rightarrow> string \<Rightarrow> string" where
  "split_last sep s = rev (takeWhile (\<lambda>c. c \<noteq> sep) (rev s))"

fun py_join :: "string \<Rightarrow> string list \<Rightarrow> string" where
  "py_join sep [] = []"
| "py_join sep [x] = x"
| "py_join sep (x # y # ys) = x @ sep @ py_join sep (y # ys)"

definition py_in :: "string \<Rightarrow> string \<Rightarrow> bool" where
  "py_in sub s = sublist sub s"

section \<open>Regular expressions\<close>

text \<open>
  The fragment of \<^verbatim>\<open>re\<close> that the e-mail pattern uses: character classes, sequence,
  \<^verbatim>\<open>+\<close>, \<^verbatim>\<open>{2,}\<close> and a final \<^verbatim>\<open>$\<close>. Matching is by derivatives; \<^verbatim>\<open>re.match\<close>
  with a pattern that ends in \<^verbatim>\<open>$\<close> succeeds iff the whole string, or the whole string
  without one final newline, is in the language of the pattern.
\<close>

datatype regex =
    Never
  | Eps
  | Class "char \<Rightarrow> bool"
  | Seq regex regex
  | Alt regex regex
  | Star regex

definition Lit :: "char \<Rightarrow> regex" where
  "Lit c = Class (\<lambda>x. x = c)"

definition Plus :: "regex \<Rightarrow> regex" where
  "Plus r = Seq r (Star r)"

definition AtLeast2 :: "regex \<Rightarrow> regex" where
  "AtLeast2 r = Seq r (Seq r (Star r))"

definition EndOfString :: regex where
  "EndOfString = Alt Eps (Lit (CHR 0x0A))"

fun nullable :: "regex \<Rightarrow> bool" where
  "nullable Never = False"
| "nullable Eps = True"
| "nullable (Class p) = False"
| "nullable (Seq r s) = (nullable r \<and> nullable s)"
| "nullable (Alt r s) = (nullable r \<or> nullable s)"
| "nullable (Star r) = True"

fun deriv :: "char \<Rightarrow> regex \<Rightarrow> regex" where
  "deriv c Never = Never"
| "deriv c Eps = Never"
| "deriv c (Class p) = (if p c then Eps else Never)"
| "deriv c (Seq r s) =
     (if nullable r then Alt (Seq (deriv c r) s) (deriv c s) else Seq (deriv c r) s)"
| "deriv c (Alt r s) = Alt (deriv c r) (deriv c s)"
| "deriv c (Star r) = Seq (deriv c r) (Star r)"

fun re_match :: "regex \<Rightarrow> string \<Rightarrow> bool" where
  "re_match r [] = nullable r"
| "re_match r (c # cs) = re_match (deriv c r) cs"

text \<open>
  The words of a pattern, as the documentation of \<^verbatim>\<open>re\<close> describes them; the matcher
  above decides exactly this relation (\<open>re_match_accepts\<close> below).
\<close>

inductive accepts :: "regex \<Rightarrow> string \<Rightarrow> bool" where
  eps: "accepts Eps []"
| cls: "p c \<Longrightarrow> accepts (Class p) [c]"
| seq: "accepts r u \<Longrightarrow> accepts s v \<Longrightarrow> accepts (Seq r s) (u @ v)"
| alt_left: "accepts r w \<Longrightarrow> accepts (Alt r s) w"
| alt_right: "accepts s w \<Longrightarrow> accepts (Alt r s) w"
| star_empty: "accepts (Star r) []"
| star_more: "accepts r u \<Longrightarrow> accepts (Star r) v \<Longrightarrow> accepts (Star r) (u @ v)"

section \<open>Rule predicates\<close>

definition disposable_domains :: "string set" where
  "disposable_domains =
     {''guerrillamail.com'', ''temp-mail.org'', ''10minutemail.com'',
      ''mailinator.com'', ''throwaway.email'', ''tempmail.com'',
      ''getnada.com'', ''maildrop.cc'', ''yopmail.com'', ''fakeinbox.com'',
      ''emailondeck.com'', ''throwawaymail.com'', ''trashmail.com'',
      ''sharklasers.com'', ''spam4.me'', ''tempr.email''}"

definition gibberish_patterns :: "string set" where
  "gibberish_patterns =
     {''asdfgh'', ''qwerty'', ''zxcvbn'', ''test test'', ''test'',
      ''fake'', ''xxx'', ''aaa'', ''zzz'', ''nnn'', ''111'', ''123'', ''abc''}"

definition validate_phone_format :: "string \<Rightarrow> bool" where
  "validate_phone_format phone =
     (if phone = [] then False
      else let digits = filter re_digit (py_str phone)
           in if length digits = 10 \<or> length digits = 11 then True else False)"

text \<open>The classes \<^verbatim>\<open>[a-zA-Z0-9._%+-]\<close>, \<^verbatim>\<open>[a-zA-Z0-9.-]\<close> and \<^verbatim>\<open>[a-zA-Z]\<close>.\<close>

definition local_class :: "char \<Rightarrow> bool" where
  "local_class c = (ascii_lower c \<or> ascii_upper c \<or> re_digit c \<or> c \<in> set ''._%+-'')"

definition domain_class :: "char \<Rightarrow> bool" where
  "domain_class c = (ascii_lower c \<or> ascii_upper c \<or> re_digit c \<or> c \<in> set ''.-'')"

definition alpha_class :: "char \<Rightarrow> bool" where
  "alpha_class c = (ascii_lower c \<or> ascii_upper c)"

definition email_pattern :: regex where
  "email_pattern =
     Seq (Plus (Class local_class))
    (Seq (Lit CHR ''@'')
    (Seq (Plus (Class domain_class))
    (Seq (Lit CHR ''.'')
    (Seq (AtLeast2 (Class alpha_class))
         EndOfString))))"

definition validate_email_format :: "string \<Rightarrow> bool" where
  "validate_email_format email =
     (if email = [] then False else re_match email_pattern (py_str email))"

definition is_disposable_email :: "string \<Rightarrow> bool" where
  "is_disposable_email email =
     (if email = [] then False
      else let domain = py_lower (split_last CHR ''@'' (py_str email))
           in domain \<in> disposable_domains)"

definition is_gibberish_name :: "string \<Rightarrow> bool" where
  "is_gibberish_name name =
     (if name = [] then True
      else let name_lower = py_strip (py_lower (py_str name))
           in if name_lower \<in> gibberish_patterns then True
              else if length name_lower \<le> 1 then True
              else if list_ex py_isdigit name_lower then True
              else False)"

section \<open>Leads and the repetition tracker\<close>

text \<open>
  A lead is a \<^verbatim>\<open>dict\<close> of named fields whose values are strings; a field may be absent.
  \<^verbatim>\<open>lead.get(key, '')\<close> reads an absent field as the empty string, and the f-string
  that builds the fingerprint inserts a string as it is.
\<close>

type_synonym lead = "string \<rightharpoonup> string"

definition get_field :: "lead \<Rightarrow> string \<Rightarrow> string" where
  "get_field lead key = (case lead key of None \<Rightarrow> [] | Some v \<Rightarrow> v)"

text \<open>
  The scorer object holds two \<^verbatim>\<open>defaultdict(int)\<close> counters and a set of digests. Every
  method that mutates them takes the tracker and returns the new one.
\<close>

record tracker =
  seen_phones :: "string \<Rightarrow> int"
  seen_emails :: "string \<Rightarrow> int"
  seen_hashes :: "string set"

definition new_tracker :: tracker where
  "new_tracker = \<lparr>seen_phones = (\<lambda>_. 0), seen_emails = (\<lambda>_. 0), seen_hashes = {}\<rparr>"

definition hash_string :: "lead \<Rightarrow> string" where
  "hash_string lead =
     get_field lead ''name'' @ ''|'' @ get_field lead ''email'' @ ''|'' @ get_field lead ''phone''"

text \<open>
  \<^verbatim>\<open>hashlib.md5(s.encode()).hexdigest()\<close> belongs to the Python library; it is the
  parameter \<open>md5\<close> of everything that hashes.
\<close>

definition find_exact_duplicate :: "(string \<Rightarrow> string) \<Rightarrow> tracker \<Rightarrow> lead \<Rightarrow> bool \<times> tracker" where
  "find_exact_duplicate md5 T lead =
     (let lead_hash = md5 (hash_string lead)
      in if lead_hash \<in> seen_hashes T then (True, T)
         else (False, T\<lparr>seen_hashes := insert lead_hash (seen_hashes T)\<rparr>))"

definition check_repeated_contact :: "tracker \<Rightarrow> lead \<Rightarrow> (bool \<times> bool) \<times> tracker" where
  "check_repeated_contact T lead =
     (let phone = py_str (get_field lead ''phone'');
          email = py_str (get_field lead ''email'');
          T1 = T\<lparr>seen_phones := (seen_phones T)(phone := seen_phones T phone + 1)\<rparr>;
          T2 = T1\<lparr>seen_emails := (seen_emails T1)(email := seen_emails T1 email + 1)\<rparr>;
          repeated_phone = (seen_phones T2 phone \<ge> 3);
          repeated_email = (seen_emails T2 email \<ge> 3)
      in ((repeated_phone, repeated_email), T2))"

section \<open>The scoring engine\<close>

datatype category = Contact | Duplicate | Geographic | Timing | Quality

datatype classification = FRAUDULENT | SUSPICIOUS | VALID

record score_result =
  fraud_score :: int
  classification :: classification
  is_fraudulent :: bool
  reasons :: "string list"
  breakdown :: "category \<Rightarrow> int"

text \<open>
  The local variables \<^verbatim>\<open>score\<close>, \<^verbatim>\<open>reasons\<close> and \<^verbatim>\<open>breakdown\<close> of \<^verbatim>\<open>score_lead\<close>.
  An award is the three statements the source repeats at each rule: add to the score, add
  to the category, append the reason.
\<close>

type_synonym locals = "int \<times> string list \<times> (category \<Rightarrow> int)"

definition score_of :: "locals \<Rightarrow> int" where
  "score_of st = fst st"

definition reasons_of :: "locals \<Rightarrow> string list" where
  "reasons_of st = fst (snd st)"

definition breakdown_of :: "locals \<Rightarrow> category \<Rightarrow> int" where
  "breakdown_of st = snd (snd st)"

definition initial_locals :: locals where
  "initial_locals = (0, [], (\<lambda>_. 0))"

definition award :: "category \<Rightarrow> int \<Rightarrow> string \<Rightarrow> locals \<Rightarrow> locals" where
  "award cat n reason st =
     (score_of st + n, reasons_of st @ [reason], (breakdown_of st)(cat := breakdown_of st cat + n))"

definition cap :: "category \<Rightarrow> int \<Rightarrow> locals \<Rightarrow> locals" where
  "cap cat limit st =
     (score_of st, reasons_of st, (breakdown_of st)(cat := min (breakdown_of st cat) limit))"

definition phone_validation :: "lead \<Rightarrow> locals \<Rightarrow> locals" where
  "phone_validation lead st =
     (let phone = get_field lead ''phone''
      in if phone = [] then award Contact 10 ''Missing phone number'' st
         else if \<not> validate_phone_format phone then award Contact 10 ''Invalid phone format'' st
         else st)"

definition email_validation :: "lead \<Rightarrow> locals \<Rightarrow> locals" where
  "email_validation lead st =
     (let email = get_field lead ''email''
      in if email = [] then award Contact 10 ''Missing email address'' st
         else if \<not> validate_email_format email then award Contact 10 ''Invalid email format'' st
         else if is_disposable_email email then award Contact 10 ''Disposable email domain'' st
         else st)"

definition repeated_contacts :: "bool \<times> bool \<Rightarrow> locals \<Rightarrow> locals" where
  "repeated_contacts flags st =
     (let (repeated_phone, repeated_email) = flags;
          st1 = (if repeated_phone then award Contact 10 ''Phone number repeated 3+ times'' st else st)
      in if repeated_email then award Contact 10 ''Email repeated 3+ times'' st1 else st1)"

definition contact_validation :: "tracker \<Rightarrow> lead \<Rightarrow> locals \<Rightarrow> locals \<times> tracker" where
  "contact_validation T lead st =
     (let st1 = phone_validation lead st;
          st2 = email_validation lead st1;
          (flags, T1) = check_repeated_contact T lead;
          st3 = repeated_contacts flags st2
      in (cap Contact 40 st3, T1))"

definition duplicate_detection ::
  "(string \<Rightarrow> string) \<Rightarrow> tracker \<Rightarrow> lead \<Rightarrow> locals \<Rightarrow> locals \<times> tracker" where
  "duplicate_detection md5 T lead st =
     (let (dup, T1) = find_exact_duplicate md5 T lead;
          st1 = (if dup then award Duplicate 15 ''Exact duplicate detected'' st else st)
      in (cap Duplicate 25 st1, T1))"

definition name_check :: "lead \<Rightarrow> locals \<Rightarrow> locals" where
  "name_check lead st =
     (let name = get_field lead ''name''
      in if name = [] \<or> is_gibberish_name name
         then award Quality 10 ''Invalid or gibberish name'' st else st)"

definition missing_fields_check :: "lead \<Rightarrow> locals \<Rightarrow> locals" where
  "missing_fields_check lead st =
     (let name = get_field lead ''name'';
          email = get_field lead ''email'';
          phone = get_field lead ''phone''
      in if name = [] \<or> email = [] \<or> phone = []
         then (if \<not> py_in ''Missing'' (py_join '' '' (reasons_of st))
               then award Quality 10 ''Missing critical fields'' st else st)
         else st)"

definition classify :: "int \<Rightarrow> classification \<times> bool" where
  "classify score =
     (if score \<ge> 50 then (FRAUDULENT, True)
      else if score \<ge> 25 then (SUSPICIOUS, False)
      else (VALID, False))"

text \<open>The state of \<^verbatim>\<open>score_lead\<close> when it reaches the check for missing critical fields.\<close>

definition before_missing_check :: "(string \<Rightarrow> string) \<Rightarrow> tracker \<Rightarrow> lead \<Rightarrow> locals \<times> tracker" where
  "before_missing_check md5 T lead =
     (let (st1, T1) = contact_validation T lead initial_locals;
          (st2, T2) = duplicate_detection md5 T1 lead st1
      in (name_check lead st2, T2))"

definition score_lead :: "(string \<Rightarrow> string) \<Rightarrow> tracker \<Rightarrow> lead \<Rightarrow> score_result \<times> tracker" where
  "score_lead md5 T lead =
     (let (st, T') = before_missing_check md5 T lead;
          st' = cap Quality 10 (missing_fields_check lead st);
          (cls, fraud) = classify (score_of st')
      in (\<lparr>fraud_score = score_of st', classification = cls, is_fraudulent = fraud,
           reasons = reasons_of st', breakdown = breakdown_of st'\<rparr>, T'))"

text \<open>The loop of \<^verbatim>\<open>main\<close> and of \<^verbatim>\<open>process_batch\<close>: the leads are scored in order
  against the one scorer object.\<close>

fun score_leads :: "(string \<Rightarrow> string) \<Rightarrow> tracker \<Rightarrow> lead list \<Rightarrow> score_result list \<times> tracker" where
  "score_leads md5 T [] = ([], T)"
| "score_leads md5 T (lead # rest) =
     (let (result, T1) = score_lead md5 T lead;
          (results, T2) = score_leads md5 T1 rest
      in (result # results, T2))"

section \<open>Binary floating point\<close>

text \<open>
  A Python \<^verbatim>\<open>float\<close> is a binary64 number; it is held here as the rational it denotes.
  \<open>binary64 x\<close> is the binary64 number nearest to \<open>x\<close>, ties to even: the significand has
  53 bits, and below \<open>2 powi (-1022)\<close> the spacing stays that of the smallest normal
  binade. Overflow is not modelled: the aggregator rounds a quotient of at most 1 and a
  product of at most 100.
\<close>

definition round_half_even :: "rat \<Rightarrow> int" where
  "round_half_even x =
     (let n = \<lfloor>x\<rfloor>; d = x - of_int n
      in if d < 1 / 2 then n else if 1 / 2 < d then n + 1 else if even n then n else n + 1)"

text \<open>The exponent \<open>e\<close> with \<open>2 powi e \<le> x < 2 powi (e + 1)\<close>, for positive \<open>x\<close>.\<close>

definition binade :: "rat \<Rightarrow> int" where
  "binade x =
     (let (p, q) = quotient_of x; e0 = bitlen p - bitlen q
      in if 2 powi e0 \<le> x then e0 else e0 - 1)"

definition binary64 :: "rat \<Rightarrow> rat" where
  "binary64 x =
     (if x = 0 then 0
      else let e = max (binade \<bar>x\<bar>) (- 1022);
               u = 2 powi (e - 52)
           in of_int (round_half_even (x / u)) * u)"

text \<open>The product of two floats, \<^verbatim>\<open>x * y\<close>, is the exact product rounded.\<close>

definition float_mul :: "rat \<Rightarrow> rat \<Rightarrow> rat" where
  "float_mul x y = binary64 (x * y)"

section \<open>The batch aggregator\<close>

text \<open>
  \<^verbatim>\<open>fraudulent_leads / total_leads\<close> is Python's true division of two integers: it raises
  \<^verbatim>\<open>ZeroDivisionError\<close> on a zero divisor and otherwise returns the float nearest to the
  quotient. The percentage is that float times 100, rounded again.
\<close>

datatype py_error = ZeroDivisionError

definition py_truediv :: "int \<Rightarrow> int \<Rightarrow> py_error + rat" where
  "py_truediv a b =
     (if b = 0 then Inl ZeroDivisionError else Inr (binary64 (of_int a / of_int b)))"

datatype refund_type = FULL_REFUND | PARTIAL_REFUND | NO_REFUND

record refund_info =
  refund_type :: refund_type
  refund_percentage :: rat
  fraud_percentage :: rat
  fraudulent_leads :: int
  valid_leads :: int
  total_leads :: int

definition calculate_batch_refund :: "score_result list \<Rightarrow> py_error + refund_info" where
  "calculate_batch_refund leads_df =
     (let total = int (length leads_df);
          fraudulent = int (length (filter (\<lambda>r. is_fraudulent r = True) leads_df))
      in case py_truediv fraudulent total of
           Inl e \<Rightarrow> Inl e
         | Inr q \<Rightarrow>
             (let percentage = float_mul q 100;
                  (rtype, rpercentage) =
                     (if percentage \<ge> 25 then (FULL_REFUND, 100)
                      else if percentage \<ge> 15 then (PARTIAL_REFUND, percentage)
                      else (NO_REFUND, 0))
              in Inr \<lparr>refund_type = rtype, refund_percentage = rpercentage,
                      fraud_percentage = percentage, fraudulent_leads = fraudulent,
                      valid_leads = total - fraudulent, total_leads = total\<rparr>))"

section \<open>Vocabulary of the properties\<close>

text \<open>
  The fingerprint in the words of the specification: the literal concatenation
  \<^verbatim>\<open>name|email|phone\<close>, a missing field taken as the empty string.
\<close>

definition spec_fingerprint :: "lead \<Rightarrow> string" where
  "spec_fingerprint lead =
     (case lead ''name'' of None \<Rightarrow> [] | Some v \<Rightarrow> v) @ ''|''
     @ (case lead ''email'' of None \<Rightarrow> [] | Some v \<Rightarrow> v) @ ''|''
     @ (case lead ''phone'' of None \<Rightarrow> [] | Some v \<Rightarrow> v)"

text \<open>The smallest positive normal binary64 number.\<close>

definition min_normal :: rat where
  "min_normal = 2 powi (- 1022)"

text \<open>The quotient of two counts rounded, times 100, rounded.\<close>

definition python_percentage :: "int \<Rightarrow> int \<Rightarrow> rat" where
  "python_percentage f t = binary64 (binary64 (of_int f / of_int t) * 100)"


text \<open>
  The points of the award that appends a given reason: fifteen for the exact duplicate,
  ten for every other rule.
\<close>

definition award_points :: "string \<Rightarrow> int" where
  "award_points reason = (if reason = ''Exact duplicate detected'' then 15 else 10)"

text \<open>The running score is the sum of the points of the reasons collected so far.\<close>

definition balanced :: "locals \<Rightarrow> bool" where
  "balanced st = (score_of st = sum_list (map award_points (reasons_of st)))"

text \<open>
  Sample data for the worked examples. The stand-in for the digest is the identity, which
  has no collisions.
\<close>

definition sample_md5 :: "string \<Rightarrow> string" where
  "sample_md5 s = s"


definition good_lead :: lead where
  "good_lead = [''name'' \<mapsto> ''John Smith'', ''email'' \<mapsto> ''john.smith@example.com'',
                ''phone'' \<mapsto> ''(555) 123-4567'']"

definition nameless_lead :: lead where
  "nameless_lead = [''email'' \<mapsto> ''john.smith@example.com'', ''phone'' \<mapsto> ''123'']"

definition test_lead :: lead where
  "test_lead = [''name'' \<mapsto> ''test'', ''email'' \<mapsto> ''john.smith@example.com'',
                ''phone'' \<mapsto> ''123'']"

definition junk_lead :: lead where
  "junk_lead = [''email'' \<mapsto> ''nobody'', ''phone'' \<mapsto> ''123'']"

text \<open>
  Leads that differ from \<open>good_lead\<close> in one field each, and a batch that ends with a
  second copy of \<open>good_lead\<close>.
\<close>

definition other_email_lead :: lead where
  "other_email_lead = good_lead(''email'' \<mapsto> ''j.smith@example.com'')"

definition other_phone_lead :: lead where
  "other_phone_lead = good_lead(''phone'' \<mapsto> ''(555) 123-4568'')"

definition other_name_lead :: lead where
  "other_name_lead = good_lead(''name'' \<mapsto> ''Jane Smith'')"

definition fingerprint_batch :: "lead list" where
  "fingerprint_batch = [good_lead, other_email_lead, other_phone_lead, other_name_lead, good_lead]"

text \<open>A batch of four leads: the first, third and fourth are the same lead.\<close>

definition sample_batch :: "lead list" where
  "sample_batch = [good_lead, junk_lead, good_lead, good_lead]"

text \<open>Sample rows of a scored batch, and a batch of \<open>f\<close> fraudulent and \<open>v\<close> valid rows.\<close>

definition fraudulent_result :: score_result where
  "fraudulent_result = \<lparr>fraud_score = 55, classification = FRAUDULENT, is_fraudulent = True,
     reasons = [], breakdown = (\<lambda>_. 0)\<rparr>"

definition valid_result :: score_result where
  "valid_result = \<lparr>fraud_score = 0, classification = VALID, is_fraudulent = False,
     reasons = [], breakdown = (\<lambda>_. 0)\<rparr>"

definition batch_of :: "nat \<Rightarrow> nat \<Rightarrow> score_result list" where
  "batch_of f v = replicate f fraudulent_result @ replicate v valid_result"

section \<open>Python strings: the cast\<close>

lemma py_str_id [simp]: "py_str s = s"
  by (simp add: py_str_def)

section \<open>The matcher decides the language of a pattern\<close>

inductive_cases accepts_NeverE: "accepts Never w"
inductive_cases accepts_EpsE: "accepts Eps w"
inductive_cases accepts_ClassE: "accepts (Class p) w"
inductive_cases accepts_SeqE: "accepts (Seq r s) w"
inductive_cases accepts_AltE: "accepts (Alt r s) w"

lemma accepts_empty_nullable: "accepts r w \<Longrightarrow> w = [] \<Longrightarrow> nullable r"
  by (induction rule: accepts.induct) simp_all

lemma nullable_accepts_empty: "nullable r \<Longrightarrow> accepts r []"
proof (induction r)
  case (Seq r s)
  then have "accepts (Seq r s) ([] @ [])" by (intro accepts.seq) simp_all
  then show ?case by simp
qed (auto intro: accepts.intros)

lemma nullable_iff: "nullable r \<longleftrightarrow> accepts r []"
  using accepts_empty_nullable nullable_accepts_empty by blast

lemma accepts_deriv: "accepts r x \<Longrightarrow> x = c # w \<Longrightarrow> accepts (deriv c r) w"
proof (induction arbitrary: w rule: accepts.induct)
  case (cls p d)
  then show ?case by (auto intro: accepts.eps)
next
  case (seq r u s v)
  show ?case
  proof (cases u)
    case Nil
    with seq have "nullable r" and "accepts (deriv c s) w"
      by (simp_all add: nullable_iff)
    then show ?thesis by (simp add: accepts.alt_right)
  next
    case (Cons d u')
    with seq have "d = c" and w: "w = u' @ v" and "accepts (deriv c r) u'" by simp_all
    with seq have "accepts (Seq (deriv c r) s) w" by (auto intro: accepts.seq)
    then show ?thesis by (simp add: accepts.alt_left)
  qed
next
  case (star_more r u v)
  show ?case
  proof (cases u)
    case Nil
    with star_more show ?thesis by simp
  next
    case (Cons d u')
    with star_more have "w = u' @ v" and "accepts (deriv c r) u'" by simp_all
    with star_more show ?thesis by (auto intro: accepts.seq)
  qed
qed (auto intro: accepts.intros)

lemma deriv_accepts: "accepts (deriv c r) w \<Longrightarrow> accepts r (c # w)"
proof (induction r arbitrary: w)
  case Never
  then show ?case by (auto elim: accepts_NeverE)
next
  case Eps
  then show ?case by (auto elim: accepts_NeverE)
next
  case (Class p)
  then show ?case
    by (auto split: if_splits elim: accepts_NeverE accepts_EpsE intro: accepts.cls)
next
  case (Seq r s)
  have via_first: "accepts (Seq r s) (c # w)" if "accepts (Seq (deriv c r) s) w"
  proof -
    from that obtain u v where "w = u @ v" "accepts (deriv c r) u" "accepts s v"
      by (auto elim: accepts_SeqE)
    with Seq.IH(1) have "accepts (Seq r s) ((c # u) @ v)" by (intro accepts.seq) simp_all
    with \<open>w = u @ v\<close> show ?thesis by simp
  qed
  have via_second: "accepts (Seq r s) (c # w)" if "nullable r" and "accepts (deriv c s) w"
  proof -
    from that Seq.IH(2) have "accepts (Seq r s) ([] @ c # w)"
      by (intro accepts.seq) (simp_all add: nullable_iff)
    then show ?thesis by simp
  qed
  from Seq.prems via_first via_second show ?case
    by (auto split: if_splits elim: accepts_AltE)
next
  case (Alt r s)
  then show ?case by (auto elim!: accepts_AltE intro: accepts.intros)
next
  case (Star r)
  from Star.prems obtain u v where "w = u @ v" "accepts (deriv c r) u" "accepts (Star r) v"
    by (auto elim: accepts_SeqE)
  with Star.IH have "accepts (Star r) ((c # u) @ v)" by (intro accepts.star_more) simp_all
  with \<open>w = u @ v\<close> show ?case by simp
qed

lemma re_match_accepts: "re_match r w \<longleftrightarrow> accepts r w"
proof (induction w arbitrary: r)
  case Nil
  then show ?case by (simp add: nullable_iff)
next
  case (Cons c w)
  then show ?case using accepts_deriv deriv_accepts by auto
qed

lemma accepts_Seq_iff:
  "accepts (Seq r s) w \<longleftrightarrow> (\<exists>u v. w = u @ v \<and> accepts r u \<and> accepts s v)"
  by (blast elim: accepts_SeqE intro: accepts.seq)

lemma accepts_Class_iff: "accepts (Class p) w \<longleftrightarrow> (\<exists>c. w = [c] \<and> p c)"
  by (auto elim: accepts_ClassE intro: accepts.cls)

lemma accepts_Lit_iff: "accepts (Lit c) w \<longleftrightarrow> w = [c]"
  by (auto simp add: Lit_def accepts_Class_iff)

lemma accepts_EndOfString_iff: "accepts EndOfString w \<longleftrightarrow> w = [] \<or> w = [CHR 0x0A]"
  by (auto simp add: EndOfString_def accepts_Lit_iff elim: accepts_AltE accepts_EpsE
      intro: accepts.intros)

lemma accepts_Star_Class_all: "accepts r w \<Longrightarrow> r = Star (Class p) \<Longrightarrow> list_all p w"
  by (induction rule: accepts.induct) (auto simp add: accepts_Class_iff)

lemma all_accepts_Star_Class: "list_all p w \<Longrightarrow> accepts (Star (Class p)) w"
proof (induction w)
  case Nil
  then show ?case by (simp add: accepts.star_empty)
next
  case (Cons c w)
  then have "accepts (Star (Class p)) ([c] @ w)"
    by (intro accepts.star_more accepts.cls) simp_all
  then show ?case by simp
qed

lemma accepts_Star_Class_iff: "accepts (Star (Class p)) w \<longleftrightarrow> list_all p w"
  using accepts_Star_Class_all all_accepts_Star_Class by blast

lemma accepts_Class_then:
  "accepts (Seq (Class p) s) w \<longleftrightarrow> (\<exists>c v. w = c # v \<and> p c \<and> accepts s v)"
proof
  assume "accepts (Seq (Class p) s) w"
  then obtain u v where "w = u @ v" and "accepts (Class p) u" and "accepts s v"
    by (auto simp add: accepts_Seq_iff)
  then show "\<exists>c v. w = c # v \<and> p c \<and> accepts s v"
    by (auto simp add: accepts_Class_iff)
next
  assume "\<exists>c v. w = c # v \<and> p c \<and> accepts s v"
  then obtain c v where "w = [c] @ v" and "p c" and "accepts s v" by auto
  then show "accepts (Seq (Class p) s) w"
    by (auto intro: accepts.seq accepts.cls simp del: append.simps)
qed

lemma accepts_Plus_Class_iff: "accepts (Plus (Class p)) w \<longleftrightarrow> w \<noteq> [] \<and> list_all p w"
  by (cases w) (simp_all add: Plus_def accepts_Class_then accepts_Star_Class_iff)

lemma accepts_AtLeast2_Class_iff:
  "accepts (AtLeast2 (Class p)) w \<longleftrightarrow> 2 \<le> length w \<and> list_all p w"
proof (cases w)
  case Nil
  then show ?thesis
    by (simp add: AtLeast2_def accepts_Class_then)
next
  case (Cons c w')
  then show ?thesis
    by (cases w') (simp_all add: AtLeast2_def accepts_Class_then accepts_Star_Class_iff)
qed

section \<open>Properties of the rule predicates\<close>

text \<open>
  The e-mail check accepts exactly the strings \<^verbatim>\<open>local@domain.tld\<close>, with an optional
  final newline, whose three parts are non-empty runs of the three character classes, the
  last of length two or more.
\<close>

lemma validate_email_format_iff:
  "validate_email_format email \<longleftrightarrow>
     (\<exists>local domain tld tail.
        email = local @ ''@'' @ domain @ ''.'' @ tld @ tail
      \<and> local \<noteq> [] \<and> list_all local_class local
      \<and> domain \<noteq> [] \<and> list_all domain_class domain
      \<and> 2 \<le> length tld \<and> list_all alpha_class tld
      \<and> (tail = [] \<or> tail = [CHR 0x0A]))"
proof (cases "email = []")
  case True
  then show ?thesis by (simp add: validate_email_format_def)
next
  case False
  then have "validate_email_format email \<longleftrightarrow> accepts email_pattern email"
    by (simp add: validate_email_format_def re_match_accepts)
  also have "\<dots> \<longleftrightarrow>
     (\<exists>local domain tld tail.
        email = local @ ''@'' @ domain @ ''.'' @ tld @ tail
      \<and> local \<noteq> [] \<and> list_all local_class local
      \<and> domain \<noteq> [] \<and> list_all domain_class domain
      \<and> 2 \<le> length tld \<and> list_all alpha_class tld
      \<and> (tail = [] \<or> tail = [CHR 0x0A]))"
    unfolding email_pattern_def accepts_Seq_iff accepts_Plus_Class_iff accepts_Lit_iff
      accepts_AtLeast2_Class_iff accepts_EndOfString_iff
    by (simp, blast)
  finally show ?thesis .
qed

text \<open>
  C10. The four rule predicates return a defined value on the empty string, which is also
  what an absent field reads as: the phone and e-mail format checks and the disposable
  check answer False, the gibberish check answers True.
\<close>

theorem predicates_on_empty_input:
  "validate_phone_format [] = False \<and> validate_email_format [] = False
   \<and> is_disposable_email [] = False \<and> is_gibberish_name [] = True"
  by (simp add: validate_phone_format_def validate_email_format_def
      is_disposable_email_def is_gibberish_name_def)

section \<open>The locals of the scoring engine\<close>

lemma award_simps [simp]:
  "score_of (award cat n reason st) = score_of st + n"
  "reasons_of (award cat n reason st) = reasons_of st @ [reason]"
  "breakdown_of (award cat n reason st) = (breakdown_of st)(cat := breakdown_of st cat + n)"
  by (simp_all add: award_def score_of_def reasons_of_def breakdown_of_def)

lemma cap_simps [simp]:
  "score_of (cap cat limit st) = score_of st"
  "reasons_of (cap cat limit st) = reasons_of st"
  "breakdown_of (cap cat limit st) = (breakdown_of st)(cat := min (breakdown_of st cat) limit)"
  by (simp_all add: cap_def score_of_def reasons_of_def breakdown_of_def)

lemma initial_locals_simps [simp]:
  "score_of initial_locals = 0"
  "reasons_of initial_locals = []"
  "breakdown_of initial_locals = (\<lambda>_. 0)"
  by (simp_all add: initial_locals_def score_of_def reasons_of_def breakdown_of_def)

lemma balanced_initial: "balanced initial_locals"
  by (simp add: balanced_def)

lemma balanced_award:
  "balanced st \<Longrightarrow> award_points reason = n \<Longrightarrow> balanced (award cat n reason st)"
  by (simp add: balanced_def)

lemma balanced_cap: "balanced (cap cat limit st) = balanced st"
  by (simp add: balanced_def)

lemma balanced_phone: "balanced st \<Longrightarrow> balanced (phone_validation lead st)"
  by (simp add: phone_validation_def Let_def balanced_award award_points_def)

lemma balanced_email: "balanced st \<Longrightarrow> balanced (email_validation lead st)"
  by (simp add: email_validation_def Let_def balanced_award award_points_def)

lemma balanced_repeated: "balanced st \<Longrightarrow> balanced (repeated_contacts flags st)"
  by (cases flags) (simp add: repeated_contacts_def Let_def balanced_award award_points_def)

lemma balanced_contact: "balanced st \<Longrightarrow> balanced (fst (contact_validation T lead st))"
  by (simp add: contact_validation_def Let_def split_beta balanced_cap balanced_phone
      balanced_email balanced_repeated)

lemma balanced_duplicate: "balanced st \<Longrightarrow> balanced (fst (duplicate_detection md5 T lead st))"
  by (simp add: duplicate_detection_def Let_def split_beta balanced_cap balanced_award award_points_def)

lemma balanced_name: "balanced st \<Longrightarrow> balanced (name_check lead st)"
  by (simp add: name_check_def Let_def balanced_award award_points_def)

lemma balanced_missing: "balanced st \<Longrightarrow> balanced (missing_fields_check lead st)"
  by (simp add: missing_fields_check_def Let_def balanced_award award_points_def)

lemma balanced_before_missing_check: "balanced (fst (before_missing_check md5 T lead))"
  by (simp add: before_missing_check_def Let_def split_beta balanced_name balanced_duplicate
      balanced_contact balanced_initial)

lemma fraud_score_sum:
  "fraud_score (fst (score_lead md5 T lead))
     = sum_list (map award_points (reasons (fst (score_lead md5 T lead))))"
  using balanced_missing [OF balanced_before_missing_check, of lead md5 T lead]
  by (simp add: score_lead_def Let_def split_beta balanced_def)

lemma score_lead_classify:
  "classification (fst (score_lead md5 T lead)) = fst (classify (fraud_score (fst (score_lead md5 T lead))))"
  "is_fraudulent (fst (score_lead md5 T lead)) = snd (classify (fraud_score (fst (score_lead md5 T lead))))"
  by (simp_all add: score_lead_def Let_def split_beta)

section \<open>The tracker operations\<close>

lemma find_exact_duplicate_flag:
  "fst (find_exact_duplicate md5 T lead) = (md5 (hash_string lead) \<in> seen_hashes T)"
  by (simp add: find_exact_duplicate_def Let_def)

lemma find_exact_duplicate_hashes:
  "seen_hashes (snd (find_exact_duplicate md5 T lead)) = insert (md5 (hash_string lead)) (seen_hashes T)"
  by (auto simp add: find_exact_duplicate_def Let_def)

lemma find_exact_duplicate_counters:
  "seen_phones (snd (find_exact_duplicate md5 T lead)) = seen_phones T"
  "seen_emails (snd (find_exact_duplicate md5 T lead)) = seen_emails T"
  by (simp_all add: find_exact_duplicate_def Let_def)

lemma check_repeated_contact_flags:
  "fst (check_repeated_contact T lead) =
     (seen_phones T (get_field lead ''phone'') + 1 \<ge> 3, seen_emails T (get_field lead ''email'') + 1 \<ge> 3)"
  by (simp add: check_repeated_contact_def Let_def)

lemma check_repeated_contact_tracker:
  "seen_phones (snd (check_repeated_contact T lead)) =
     (seen_phones T)(get_field lead ''phone'' := seen_phones T (get_field lead ''phone'') + 1)"
  "seen_emails (snd (check_repeated_contact T lead)) =
     (seen_emails T)(get_field lead ''email'' := seen_emails T (get_field lead ''email'') + 1)"
  "seen_hashes (snd (check_repeated_contact T lead)) = seen_hashes T"
  by (simp_all add: check_repeated_contact_def Let_def)

lemma score_lead_tracker:
  "snd (score_lead md5 T lead) = snd (find_exact_duplicate md5 (snd (check_repeated_contact T lead)) lead)"
  by (simp add: score_lead_def before_missing_check_def contact_validation_def
      duplicate_detection_def Let_def split_beta)

lemma score_lead_seen:
  "seen_hashes (snd (score_lead md5 T lead)) = insert (md5 (hash_string lead)) (seen_hashes T)"
  "seen_phones (snd (score_lead md5 T lead)) =
     (seen_phones T)(get_field lead ''phone'' := seen_phones T (get_field lead ''phone'') + 1)"
  "seen_emails (snd (score_lead md5 T lead)) =
     (seen_emails T)(get_field lead ''email'' := seen_emails T (get_field lead ''email'') + 1)"
  by (simp_all add: score_lead_tracker find_exact_duplicate_hashes find_exact_duplicate_counters
      check_repeated_contact_tracker)

lemma score_leads_seen_hashes:
  "seen_hashes (snd (score_leads md5 T leads))
     = seen_hashes T \<union> (\<lambda>l. md5 (hash_string l)) ` set leads"
  by (induction leads arbitrary: T) (auto simp add: split_beta Let_def score_lead_seen)

lemma score_leads_seen_phones:
  "seen_phones (snd (score_leads md5 T leads)) p
     = seen_phones T p + int (count_list (map (\<lambda>l. get_field l ''phone'') leads) p)"
  by (induction leads arbitrary: T) (auto simp add: split_beta Let_def score_lead_seen)

lemma score_leads_seen_emails:
  "seen_emails (snd (score_leads md5 T leads)) e
     = seen_emails T e + int (count_list (map (\<lambda>l. get_field l ''email'') leads) e)"
  by (induction leads arbitrary: T) (auto simp add: split_beta Let_def score_lead_seen)

lemma score_leads_nth:
  "k < length leads \<Longrightarrow>
     fst (score_leads md5 T leads) ! k
       = fst (score_lead md5 (snd (score_leads md5 T (take k leads))) (leads ! k))"
proof (induction leads arbitrary: T k)
  case Nil
  then show ?case by simp
next
  case (Cons a leads)
  then show ?case by (cases k) (simp_all add: split_beta Let_def)
qed

section \<open>The reasons of a result\<close>

lemma phone_validation_reasons:
  "reasons_of (phone_validation lead st) = reasons_of st @
     (if get_field lead ''phone'' = [] then [''Missing phone number'']
      else if \<not> validate_phone_format (get_field lead ''phone'') then [''Invalid phone format'']
      else [])"
  by (simp add: phone_validation_def Let_def)

lemma email_validation_reasons:
  "reasons_of (email_validation lead st) = reasons_of st @
     (if get_field lead ''email'' = [] then [''Missing email address'']
      else if \<not> validate_email_format (get_field lead ''email'') then [''Invalid email format'']
      else if is_disposable_email (get_field lead ''email'') then [''Disposable email domain'']
      else [])"
  by (simp add: email_validation_def Let_def)

lemma repeated_contacts_reasons:
  "reasons_of (repeated_contacts flags st) = reasons_of st @
     (if fst flags then [''Phone number repeated 3+ times''] else []) @
     (if snd flags then [''Email repeated 3+ times''] else [])"
  by (simp add: repeated_contacts_def Let_def split_beta)

lemma contact_validation_reasons:
  "reasons_of (fst (contact_validation T lead st)) =
     reasons_of (repeated_contacts (fst (check_repeated_contact T lead))
        (email_validation lead (phone_validation lead st)))"
  by (simp add: contact_validation_def Let_def split_beta)

lemma contact_validation_tracker:
  "snd (contact_validation T lead st) = snd (check_repeated_contact T lead)"
  by (simp add: contact_validation_def Let_def split_beta)

lemma duplicate_detection_reasons:
  "reasons_of (fst (duplicate_detection md5 T lead st)) = reasons_of st @
     (if fst (find_exact_duplicate md5 T lead) then [''Exact duplicate detected''] else [])"
  by (simp add: duplicate_detection_def Let_def split_beta)

lemma name_check_reasons:
  "reasons_of (name_check lead st) = reasons_of st @
     (if get_field lead ''name'' = [] \<or> is_gibberish_name (get_field lead ''name'')
      then [''Invalid or gibberish name''] else [])"
  by (simp add: name_check_def Let_def)

lemma before_missing_check_reasons:
  "reasons_of (fst (before_missing_check md5 T lead)) =
     (if get_field lead ''phone'' = [] then [''Missing phone number'']
      else if \<not> validate_phone_format (get_field lead ''phone'') then [''Invalid phone format'']
      else []) @
     (if get_field lead ''email'' = [] then [''Missing email address'']
      else if \<not> validate_email_format (get_field lead ''email'') then [''Invalid email format'']
      else if is_disposable_email (get_field lead ''email'') then [''Disposable email domain'']
      else []) @
     (if fst (fst (check_repeated_contact T lead)) then [''Phone number repeated 3+ times''] else []) @
     (if snd (fst (check_repeated_contact T lead)) then [''Email repeated 3+ times''] else []) @
     (if fst (find_exact_duplicate md5 T lead) then [''Exact duplicate detected''] else []) @
     (if get_field lead ''name'' = [] \<or> is_gibberish_name (get_field lead ''name'')
      then [''Invalid or gibberish name''] else [])"
  unfolding before_missing_check_def Let_def split_beta fst_conv snd_conv
    name_check_reasons duplicate_detection_reasons contact_validation_reasons
    contact_validation_tracker repeated_contacts_reasons email_validation_reasons
    phone_validation_reasons initial_locals_simps
  by (simp add: find_exact_duplicate_flag check_repeated_contact_tracker)

lemma missing_fields_check_reasons:
  "reasons_of (missing_fields_check lead st) = reasons_of st @
     (if (get_field lead ''name'' = [] \<or> get_field lead ''email'' = [] \<or> get_field lead ''phone'' = [])
         \<and> \<not> py_in ''Missing'' (py_join '' '' (reasons_of st))
      then [''Missing critical fields''] else [])"
  by (simp add: missing_fields_check_def Let_def)

lemma score_lead_reasons:
  "reasons (fst (score_lead md5 T lead)) =
     reasons_of (missing_fields_check lead (fst (before_missing_check md5 T lead)))"
  by (simp add: score_lead_def Let_def split_beta)

lemma duplicate_reason_iff:
  "''Exact duplicate detected'' \<in> set (reasons (fst (score_lead md5 T lead)))
     \<longleftrightarrow> fst (find_exact_duplicate md5 T lead)"
  by (simp add: score_lead_reasons missing_fields_check_reasons before_missing_check_reasons)

lemma repeated_reason_iff:
  "''Phone number repeated 3+ times'' \<in> set (reasons (fst (score_lead md5 T lead)))
     \<longleftrightarrow> fst (fst (check_repeated_contact T lead))"
  "''Email repeated 3+ times'' \<in> set (reasons (fst (score_lead md5 T lead)))
     \<longleftrightarrow> snd (fst (check_repeated_contact T lead))"
  by (simp_all add: score_lead_reasons missing_fields_check_reasons before_missing_check_reasons)

section \<open>Classification\<close>

lemma breakdown_hides_classification:
  "breakdown (fst (score_lead md5 new_tracker nameless_lead))
     = breakdown (fst (score_lead md5 new_tracker test_lead))
   \<and> classification (fst (score_lead md5 new_tracker nameless_lead)) = SUSPICIOUS
   \<and> classification (fst (score_lead md5 new_tracker test_lead)) = VALID"
proof -
  have "breakdown (fst (score_lead md5 new_tracker nameless_lead)) c
     = breakdown (fst (score_lead md5 new_tracker test_lead)) c" for c
    by (cases c; code_simp; simp)
  then have "breakdown (fst (score_lead md5 new_tracker nameless_lead))
     = breakdown (fst (score_lead md5 new_tracker test_lead))"
    by (rule ext)
  moreover have "classification (fst (score_lead md5 new_tracker nameless_lead)) = SUSPICIOUS"
    by code_simp
  moreover have "classification (fst (score_lead md5 new_tracker test_lead)) = VALID"
    by code_simp
  ultimately show ?thesis by simp
qed

text \<open>
  C1. The classification of \<^verbatim>\<open>score_lead\<close> is decided by the returned total alone: a total
  of at least 50 is FRAUDULENT and fraudulent, a total from 25 to 49 is SUSPICIOUS and
  not fraudulent, a total below 25 is VALID and not fraudulent. The total is the sum of
  the points of every award made, with no cap applied, and the breakdown does not decide
  the classification: two results with the same breakdown are classified differently.
\<close>

theorem score_lead_classification:
  "(let r = fst (score_lead md5 T lead) in
      (fraud_score r \<ge> 50 \<longrightarrow> classification r = FRAUDULENT \<and> is_fraudulent r = True)
    \<and> (25 \<le> fraud_score r \<and> fraud_score r < 50 \<longrightarrow> classification r = SUSPICIOUS \<and> is_fraudulent r = False)
    \<and> (fraud_score r < 25 \<longrightarrow> classification r = VALID \<and> is_fraudulent r = False)
    \<and> fraud_score r = sum_list (map award_points (reasons r)))
   \<and> (\<exists>T1 lead1 T2 lead2.
         breakdown (fst (score_lead md5 T1 lead1)) = breakdown (fst (score_lead md5 T2 lead2))
       \<and> classification (fst (score_lead md5 T1 lead1))
           \<noteq> classification (fst (score_lead md5 T2 lead2)))"
proof -
  have "\<exists>T1 lead1 T2 lead2.
         breakdown (fst (score_lead md5 T1 lead1)) = breakdown (fst (score_lead md5 T2 lead2))
       \<and> classification (fst (score_lead md5 T1 lead1))
           \<noteq> classification (fst (score_lead md5 T2 lead2))"
    using breakdown_hides_classification [of md5] by (metis classification.distinct(5))
  then show ?thesis
    using fraud_score_sum [of md5 T lead]
    by (simp add: Let_def score_lead_classify classify_def)
qed

theorem score_lead_classification_witness:
  "(50 \<le> fraud_score (fst (score_lead sample_md5 (snd (score_lead sample_md5 new_tracker junk_lead)) junk_lead))
    \<and> classification (fst (score_lead sample_md5 (snd (score_lead sample_md5 new_tracker junk_lead)) junk_lead)) = FRAUDULENT
    \<and> is_fraudulent (fst (score_lead sample_md5 (snd (score_lead sample_md5 new_tracker junk_lead)) junk_lead)) = True)
   \<and> (25 \<le> fraud_score (fst (score_lead sample_md5 new_tracker nameless_lead))
    \<and> fraud_score (fst (score_lead sample_md5 new_tracker nameless_lead)) < 50
    \<and> classification (fst (score_lead sample_md5 new_tracker nameless_lead)) = SUSPICIOUS
    \<and> is_fraudulent (fst (score_lead sample_md5 new_tracker nameless_lead)) = False)
   \<and> (fraud_score (fst (score_lead sample_md5 new_tracker test_lead)) < 25
    \<and> classification (fst (score_lead sample_md5 new_tracker test_lead)) = VALID
    \<and> is_fraudulent (fst (score_lead sample_md5 new_tracker test_lead)) = False)"
proof -
  have a: "fraud_score (fst (score_lead sample_md5 (snd (score_lead sample_md5 new_tracker junk_lead)) junk_lead)) = 55"
    by code_simp
  have b: "fraud_score (fst (score_lead sample_md5 new_tracker nameless_lead)) = 30"
    by code_simp
  have c: "fraud_score (fst (score_lead sample_md5 new_tracker test_lead)) = 20"
    by code_simp
  show ?thesis
    using score_lead_classification [of sample_md5 "snd (score_lead sample_md5 new_tracker junk_lead)" junk_lead]
      score_lead_classification [of sample_md5 new_tracker nameless_lead]
      score_lead_classification [of sample_md5 new_tracker test_lead]
    by (simp add: Let_def a b c)
qed

section \<open>A clean lead\<close>

text \<open>
  C3. A lead whose phone is present and well formed, whose e-mail is present, well formed
  and not disposable, whose name is present and not gibberish, and for which the tracker
  raises neither repetition flag nor the duplicate flag, scores 0 and is VALID.
\<close>

theorem valid_lead_scores_zero:
  assumes "get_field lead ''phone'' \<noteq> []" and "validate_phone_format (get_field lead ''phone'')"
    and "get_field lead ''email'' \<noteq> []" and "validate_email_format (get_field lead ''email'')"
    and "\<not> is_disposable_email (get_field lead ''email'')"
    and "get_field lead ''name'' \<noteq> []" and "\<not> is_gibberish_name (get_field lead ''name'')"
    and "fst (check_repeated_contact T lead) = (False, False)"
    and "fst (find_exact_duplicate md5 T lead) = False"
  shows "fraud_score (fst (score_lead md5 T lead)) = 0
       \<and> classification (fst (score_lead md5 T lead)) = VALID"
proof -
  have contact: "phone_validation lead initial_locals = initial_locals"
    "email_validation lead initial_locals = initial_locals"
    using assms by (simp_all add: phone_validation_def email_validation_def)
  have rep: "repeated_contacts (fst (check_repeated_contact T lead)) initial_locals = initial_locals"
    using assms by (simp add: repeated_contacts_def)
  have dup: "fst (find_exact_duplicate md5 (snd (check_repeated_contact T lead)) lead) = False"
    using assms by (simp add: find_exact_duplicate_flag check_repeated_contact_tracker)
  have "score_of (fst (before_missing_check md5 T lead)) = 0"
    using contact rep dup assms
    by (simp add: before_missing_check_def contact_validation_def duplicate_detection_def
        name_check_def Let_def split_beta)
  moreover have "missing_fields_check lead st = st" for st
    using assms by (simp add: missing_fields_check_def)
  ultimately have "fraud_score (fst (score_lead md5 T lead)) = 0"
    by (simp add: score_lead_def Let_def split_beta)
  then show ?thesis
    by (simp add: score_lead_classify classify_def)
qed

theorem valid_lead_scores_zero_witness:
  "get_field good_lead ''phone'' \<noteq> [] \<and> validate_phone_format (get_field good_lead ''phone'')
   \<and> get_field good_lead ''email'' \<noteq> [] \<and> validate_email_format (get_field good_lead ''email'')
   \<and> \<not> is_disposable_email (get_field good_lead ''email'')
   \<and> get_field good_lead ''name'' \<noteq> [] \<and> \<not> is_gibberish_name (get_field good_lead ''name'')
   \<and> fst (check_repeated_contact new_tracker good_lead) = (False, False)
   \<and> fst (find_exact_duplicate sample_md5 new_tracker good_lead) = False
   \<and> fraud_score (fst (score_lead sample_md5 new_tracker good_lead)) = 0
   \<and> classification (fst (score_lead sample_md5 new_tracker good_lead)) = VALID"
proof -
  have 1: "get_field good_lead ''phone'' \<noteq> []" by code_simp
  have 2: "validate_phone_format (get_field good_lead ''phone'')" by code_simp
  have 3: "get_field good_lead ''email'' \<noteq> []" by code_simp
  have 4: "validate_email_format (get_field good_lead ''email'')" by code_simp
  have 5: "\<not> is_disposable_email (get_field good_lead ''email'')" by code_simp
  have 6: "get_field good_lead ''name'' \<noteq> []" by code_simp
  have 7: "\<not> is_gibberish_name (get_field good_lead ''name'')" by code_simp
  have 8: "fst (check_repeated_contact new_tracker good_lead) = (False, False)" by code_simp
  have 9: "fst (find_exact_duplicate sample_md5 new_tracker good_lead) = False" by code_simp
  show ?thesis
    using valid_lead_scores_zero [OF 1 2 3 4 5 6 7 8 9] 1 2 3 4 5 6 7 8 9 by blast
qed

section \<open>Category caps\<close>

lemma contact_validation_cap: "breakdown_of (fst (contact_validation T lead st)) Contact \<le> 40"
  by (simp add: contact_validation_def Let_def split_beta)

lemma duplicate_detection_cap:
  "breakdown_of (fst (duplicate_detection md5 T lead st)) Duplicate \<le> 25"
  "c \<noteq> Duplicate \<Longrightarrow> breakdown_of (fst (duplicate_detection md5 T lead st)) c = breakdown_of st c"
  by (simp_all add: duplicate_detection_def Let_def split_beta)

lemma name_check_breakdown:
  "c \<noteq> Quality \<Longrightarrow> breakdown_of (name_check lead st) c = breakdown_of st c"
  by (simp add: name_check_def Let_def)

lemma missing_fields_check_breakdown:
  "c \<noteq> Quality \<Longrightarrow> breakdown_of (missing_fields_check lead st) c = breakdown_of st c"
  by (simp add: missing_fields_check_def Let_def)

lemma before_missing_check_caps:
  "breakdown_of (fst (before_missing_check md5 T lead)) Contact \<le> 40"
  "breakdown_of (fst (before_missing_check md5 T lead)) Duplicate \<le> 25"
  by (simp_all add: before_missing_check_def Let_def split_beta name_check_breakdown
      duplicate_detection_cap contact_validation_cap)

lemma score_lead_caps:
  "breakdown (fst (score_lead md5 T lead)) Contact \<le> 40"
  "breakdown (fst (score_lead md5 T lead)) Duplicate \<le> 25"
  "breakdown (fst (score_lead md5 T lead)) Quality \<le> 10"
  by (simp_all add: score_lead_def Let_def split_beta missing_fields_check_breakdown
      before_missing_check_caps)

lemma nameless_lead_exceeds:
  "fraud_score (fst (score_lead md5 new_tracker nameless_lead)) = 30"
  "breakdown (fst (score_lead md5 new_tracker nameless_lead)) Contact = 10"
  "breakdown (fst (score_lead md5 new_tracker nameless_lead)) Duplicate = 0"
  "breakdown (fst (score_lead md5 new_tracker nameless_lead)) Quality = 10"
  by code_simp+

text \<open>
  C6. In every result the contact entry of the breakdown is at most 40, the duplicate
  entry at most 25 and the quality entry at most 10, while the total is the sum of the
  points of all awards; for some lead the total is strictly greater than the sum of the
  three entries.
\<close>

theorem breakdown_caps_and_unclipped_total:
  "(let r = fst (score_lead md5 T lead) in
      breakdown r Contact \<le> 40 \<and> breakdown r Duplicate \<le> 25 \<and> breakdown r Quality \<le> 10
    \<and> fraud_score r = sum_list (map award_points (reasons r)))
   \<and> (\<exists>T' lead'. let r' = fst (score_lead md5 T' lead') in
         fraud_score r' > breakdown r' Contact + breakdown r' Duplicate + breakdown r' Quality)"
proof -
  have "let r' = fst (score_lead md5 new_tracker nameless_lead) in
         fraud_score r' > breakdown r' Contact + breakdown r' Duplicate + breakdown r' Quality"
    by (simp add: Let_def nameless_lead_exceeds)
  then have "\<exists>T' lead'. let r' = fst (score_lead md5 T' lead') in
         fraud_score r' > breakdown r' Contact + breakdown r' Duplicate + breakdown r' Quality"
    by blast
  then show ?thesis
    using fraud_score_sum [of md5 T lead] by (simp add: Let_def score_lead_caps)
qed

theorem breakdown_caps_and_unclipped_total_witness:
  "breakdown (fst (score_lead sample_md5 new_tracker nameless_lead)) Quality \<le> 10
   \<and> fraud_score (fst (score_lead sample_md5 new_tracker nameless_lead)) = 30
   \<and> sum_list (map award_points (reasons (fst (score_lead sample_md5 new_tracker nameless_lead)))) = 30"
  using breakdown_caps_and_unclipped_total [of sample_md5 new_tracker nameless_lead]
    nameless_lead_exceeds(1) [of sample_md5]
  by (simp add: Let_def)

section \<open>Duplicate fingerprints in a batch\<close>

lemma earlier_leads:
  assumes "k \<le> length leads"
  shows "(\<exists>l \<in> set (take k leads). P l) \<longleftrightarrow> (\<exists>j<k. P (leads ! j))"
proof
  assume "\<exists>l \<in> set (take k leads). P l"
  then obtain l where "l \<in> set (take k leads)" and l: "P l" by blast
  then obtain i where "i < length (take k leads)" and "take k leads ! i = l"
    by (auto simp add: in_set_conv_nth)
  with assms have "i < k" and "leads ! i = l" by simp_all
  with l show "\<exists>j<k. P (leads ! j)" by blast
next
  assume "\<exists>j<k. P (leads ! j)"
  then obtain j where j: "j < k" and p: "P (leads ! j)" by blast
  with assms have "j < length (take k leads)" and "take k leads ! j = leads ! j" by simp_all
  then have "leads ! j \<in> set (take k leads)" by (metis nth_mem)
  with p show "\<exists>l \<in> set (take k leads). P l" by blast
qed

lemma sample_batch_nth:
  "sample_batch ! 0 = good_lead" "sample_batch ! 1 = junk_lead"
  "sample_batch ! 2 = good_lead" "sample_batch ! 3 = good_lead"
  "sample_batch ! Suc 0 = junk_lead" "length sample_batch = 4"
  by (simp_all add: sample_batch_def)

lemma hash_string_is_fingerprint: "hash_string lead = spec_fingerprint lead"
  by (simp add: hash_string_def spec_fingerprint_def get_field_def)

lemma fingerprint_batch_nth:
  "fingerprint_batch ! 0 = good_lead" "fingerprint_batch ! 1 = other_email_lead"
  "fingerprint_batch ! 2 = other_phone_lead" "fingerprint_batch ! 3 = other_name_lead"
  "fingerprint_batch ! 4 = good_lead" "length fingerprint_batch = 5"
  by (simp_all add: fingerprint_batch_def)

lemma sample_fingerprints:
  "spec_fingerprint good_lead = ''John Smith|john.smith@example.com|(555) 123-4567''"
  "spec_fingerprint other_email_lead = ''John Smith|j.smith@example.com|(555) 123-4567''"
  "spec_fingerprint other_phone_lead = ''John Smith|john.smith@example.com|(555) 123-4568''"
  "spec_fingerprint other_name_lead = ''Jane Smith|john.smith@example.com|(555) 123-4567''"
  "spec_fingerprint junk_lead = ''|nobody|123''"
  by code_simp+

text \<open>
  C4. Let a batch be scored in order from a new tracker, and take the tracker as it is when
  lead \<open>k\<close> is reached. The fingerprint of a lead is the literal concatenation
  \<^verbatim>\<open>name|email|phone\<close> of its fields, an absent field read as the empty string.
  \<^verbatim>\<open>find_exact_duplicate\<close> answers True for lead \<open>k\<close> iff the digest of its fingerprint
  equals the digest of the fingerprint of an earlier lead of the batch; after the call the
  set of digests is the earlier set with that digest added; and result \<open>k\<close> of the batch
  carries the duplicate reason iff the answer was True. So the first occurrence of a
  fingerprint is never flagged and every later one is.
\<close>

theorem find_exact_duplicate_in_batch:
  assumes "k < length leads"
  shows "(let T = snd (score_leads md5 new_tracker (take k leads));
              lead = leads ! k;
              name = (case lead ''name'' of None \<Rightarrow> [] | Some v \<Rightarrow> v);
              email = (case lead ''email'' of None \<Rightarrow> [] | Some v \<Rightarrow> v);
              phone = (case lead ''phone'' of None \<Rightarrow> [] | Some v \<Rightarrow> v);
              fingerprint = name @ ''|'' @ email @ ''|'' @ phone;
              (flag, T') = find_exact_duplicate md5 T lead
          in spec_fingerprint lead = fingerprint
           \<and> (flag \<longleftrightarrow> (\<exists>j<k. md5 (spec_fingerprint (leads ! j)) = md5 fingerprint))
           \<and> md5 fingerprint \<in> seen_hashes T'
           \<and> seen_hashes T' = insert (md5 fingerprint) (seen_hashes T)
           \<and> (''Exact duplicate detected'' \<in> set (reasons (fst (score_leads md5 new_tracker leads) ! k))
                \<longleftrightarrow> flag))"
proof -
  let ?T = "snd (score_leads md5 new_tracker (take k leads))"
  let ?lead = "leads ! k"
  have fp: "spec_fingerprint ?lead =
      (case ?lead ''name'' of None \<Rightarrow> [] | Some v \<Rightarrow> v) @ ''|''
      @ (case ?lead ''email'' of None \<Rightarrow> [] | Some v \<Rightarrow> v) @ ''|''
      @ (case ?lead ''phone'' of None \<Rightarrow> [] | Some v \<Rightarrow> v)"
    by (simp add: spec_fingerprint_def)
  have seen: "seen_hashes ?T = (\<lambda>l. md5 (spec_fingerprint l)) ` set (take k leads)"
    by (simp add: score_leads_seen_hashes new_tracker_def hash_string_is_fingerprint)
  have "fst (find_exact_duplicate md5 ?T ?lead)
      \<longleftrightarrow> (\<exists>l \<in> set (take k leads). md5 (spec_fingerprint l) = md5 (spec_fingerprint ?lead))"
    unfolding find_exact_duplicate_flag hash_string_is_fingerprint seen image_iff by metis
  also have "\<dots> \<longleftrightarrow> (\<exists>j<k. md5 (spec_fingerprint (leads ! j)) = md5 (spec_fingerprint ?lead))"
    using assms by (simp add: earlier_leads)
  finally have flag: "fst (find_exact_duplicate md5 ?T ?lead)
      \<longleftrightarrow> (\<exists>j<k. md5 (spec_fingerprint (leads ! j)) = md5 (spec_fingerprint ?lead))" .
  have recorded: "seen_hashes (snd (find_exact_duplicate md5 ?T ?lead))
      = insert (md5 (spec_fingerprint ?lead)) (seen_hashes ?T)"
    by (simp add: find_exact_duplicate_hashes hash_string_is_fingerprint)
  have reason: "''Exact duplicate detected'' \<in> set (reasons (fst (score_leads md5 new_tracker leads) ! k))
      \<longleftrightarrow> fst (find_exact_duplicate md5 ?T ?lead)"
    using assms by (simp add: score_leads_nth duplicate_reason_iff)
  show ?thesis
    unfolding Let_def split_beta fp [symmetric]
    using flag recorded reason by simp
qed

theorem find_exact_duplicate_in_batch_witness:
  "1 < length fingerprint_batch \<and> 2 < length fingerprint_batch
   \<and> 3 < length fingerprint_batch \<and> 4 < length fingerprint_batch
   \<and> spec_fingerprint (fingerprint_batch ! 4) = ''John Smith|john.smith@example.com|(555) 123-4567''
   \<and> ''Exact duplicate detected''
        \<notin> set (reasons (fst (score_leads sample_md5 new_tracker fingerprint_batch) ! 1))
   \<and> ''Exact duplicate detected''
        \<notin> set (reasons (fst (score_leads sample_md5 new_tracker fingerprint_batch) ! 2))
   \<and> ''Exact duplicate detected''
        \<notin> set (reasons (fst (score_leads sample_md5 new_tracker fingerprint_batch) ! 3))
   \<and> ''Exact duplicate detected''
        \<in> set (reasons (fst (score_leads sample_md5 new_tracker fingerprint_batch) ! 4))"
proof -
  have len: "1 < length fingerprint_batch" "2 < length fingerprint_batch"
    "3 < length fingerprint_batch" "4 < length fingerprint_batch"
    by (simp_all add: fingerprint_batch_nth)
  have nth: "fingerprint_batch ! j = [good_lead, other_email_lead, other_phone_lead,
      other_name_lead, good_lead] ! j" for j
    by (simp add: fingerprint_batch_def)
  have differ: "\<not> (\<exists>j<1. sample_md5 (spec_fingerprint (fingerprint_batch ! j))
                      = sample_md5 (spec_fingerprint (fingerprint_batch ! 1)))"
    "\<not> (\<exists>j<2. sample_md5 (spec_fingerprint (fingerprint_batch ! j))
                      = sample_md5 (spec_fingerprint (fingerprint_batch ! 2)))"
    "\<not> (\<exists>j<3. sample_md5 (spec_fingerprint (fingerprint_batch ! j))
                      = sample_md5 (spec_fingerprint (fingerprint_batch ! 3)))"
    by (auto simp add: nth sample_md5_def sample_fingerprints less_Suc_eq numeral_nat
        nth_Cons')
  have same: "\<exists>j<4. sample_md5 (spec_fingerprint (fingerprint_batch ! j))
                      = sample_md5 (spec_fingerprint (fingerprint_batch ! 4))"
    by (rule exI [of _ 0]) (simp add: fingerprint_batch_nth)
  have literal: "spec_fingerprint (fingerprint_batch ! 4)
      = ''John Smith|john.smith@example.com|(555) 123-4567''"
    by (simp add: fingerprint_batch_nth sample_fingerprints)
  note t1 = find_exact_duplicate_in_batch [OF len(1), of sample_md5, unfolded Let_def split_beta]
  note t2 = find_exact_duplicate_in_batch [OF len(2), of sample_md5, unfolded Let_def split_beta]
  note t3 = find_exact_duplicate_in_batch [OF len(3), of sample_md5, unfolded Let_def split_beta]
  note t4 = find_exact_duplicate_in_batch [OF len(4), of sample_md5, unfolded Let_def split_beta]
  have "''Exact duplicate detected''
        \<notin> set (reasons (fst (score_leads sample_md5 new_tracker fingerprint_batch) ! 1))"
    using t1 differ(1) by metis
  moreover have "''Exact duplicate detected''
        \<notin> set (reasons (fst (score_leads sample_md5 new_tracker fingerprint_batch) ! 2))"
    using t2 differ(2) by metis
  moreover have "''Exact duplicate detected''
        \<notin> set (reasons (fst (score_leads sample_md5 new_tracker fingerprint_batch) ! 3))"
    using t3 differ(3) by metis
  moreover have "''Exact duplicate detected''
        \<in> set (reasons (fst (score_leads sample_md5 new_tracker fingerprint_batch) ! 4))"
    using t4 same by metis
  ultimately show ?thesis using len literal by blast
qed

section \<open>Repeated contacts in a batch\<close>

lemma sample_phones:
  "count_list (map (\<lambda>l. get_field l ''phone'') (take 3 sample_batch))
      (get_field (sample_batch ! 2) ''phone'') = 2"
  "count_list (map (\<lambda>l. get_field l ''phone'') (take 4 sample_batch))
      (get_field (sample_batch ! 3) ''phone'') = 3"
  "count_list (map (\<lambda>l. get_field l ''email'') (take 3 sample_batch))
      (get_field (sample_batch ! 2) ''email'') = 2"
  "count_list (map (\<lambda>l. get_field l ''email'') (take 4 sample_batch))
      (get_field (sample_batch ! 3) ''email'') = 3"
  by code_simp+

text \<open>
  C5. In the same setting \<^verbatim>\<open>check_repeated_contact\<close> on lead \<open>k\<close> adds one to the counter
  of the lead's phone and to the counter of its e-mail, and each flag it returns is True
  iff the counter after the increment is at least 3. The counter after the increment is
  the number of occurrences of the value among leads 0 to \<open>k\<close>, so the third occurrence is
  the first one flagged and every later occurrence is flagged; result \<open>k\<close> carries the
  repetition reasons iff the flags were True.
\<close>

theorem check_repeated_contact_in_batch:
  assumes "k < length leads"
  shows "(let T = snd (score_leads md5 new_tracker (take k leads));
              lead = leads ! k;
              phone = py_str (get_field lead ''phone'');
              email = py_str (get_field lead ''email'');
              ((repeated_phone, repeated_email), T') = check_repeated_contact T lead
          in seen_phones T' phone = seen_phones T phone + 1
           \<and> seen_emails T' email = seen_emails T email + 1
           \<and> (repeated_phone \<longleftrightarrow> seen_phones T' phone \<ge> 3)
           \<and> (repeated_email \<longleftrightarrow> seen_emails T' email \<ge> 3)
           \<and> seen_phones T' phone
                = int (count_list (map (\<lambda>l. get_field l ''phone'') (take (Suc k) leads)) phone)
           \<and> seen_emails T' email
                = int (count_list (map (\<lambda>l. get_field l ''email'') (take (Suc k) leads)) email)
           \<and> (''Phone number repeated 3+ times'' \<in> set (reasons (fst (score_leads md5 new_tracker leads) ! k))
                \<longleftrightarrow> repeated_phone)
           \<and> (''Email repeated 3+ times'' \<in> set (reasons (fst (score_leads md5 new_tracker leads) ! k))
                \<longleftrightarrow> repeated_email))"
proof -
  let ?T = "snd (score_leads md5 new_tracker (take k leads))"
  let ?lead = "leads ! k"
  have tk: "take (Suc k) leads = take k leads @ [?lead]"
    using assms by (simp add: take_Suc_conv_app_nth)
  have phones: "seen_phones ?T p = int (count_list (map (\<lambda>l. get_field l ''phone'') (take k leads)) p)" for p
    by (simp add: score_leads_seen_phones new_tracker_def)
  have emails: "seen_emails ?T e = int (count_list (map (\<lambda>l. get_field l ''email'') (take k leads)) e)" for e
    by (simp add: score_leads_seen_emails new_tracker_def)
  have reason:
    "''Phone number repeated 3+ times'' \<in> set (reasons (fst (score_leads md5 new_tracker leads) ! k))
      \<longleftrightarrow> fst (fst (check_repeated_contact ?T ?lead))"
    "''Email repeated 3+ times'' \<in> set (reasons (fst (score_leads md5 new_tracker leads) ! k))
      \<longleftrightarrow> snd (fst (check_repeated_contact ?T ?lead))"
    using assms by (simp_all add: score_leads_nth repeated_reason_iff)
  show ?thesis
    unfolding Let_def split_beta reason
    by (simp add: check_repeated_contact_flags check_repeated_contact_tracker tk phones emails)
qed

theorem check_repeated_contact_in_batch_witness:
  "2 < length sample_batch \<and> 3 < length sample_batch
   \<and> ''Phone number repeated 3+ times'' \<notin> set (reasons (fst (score_leads sample_md5 new_tracker sample_batch) ! 2))
   \<and> ''Email repeated 3+ times'' \<notin> set (reasons (fst (score_leads sample_md5 new_tracker sample_batch) ! 2))
   \<and> ''Phone number repeated 3+ times'' \<in> set (reasons (fst (score_leads sample_md5 new_tracker sample_batch) ! 3))
   \<and> ''Email repeated 3+ times'' \<in> set (reasons (fst (score_leads sample_md5 new_tracker sample_batch) ! 3))"
proof -
  have len: "2 < length sample_batch" "3 < length sample_batch"
    by (simp_all add: sample_batch_nth)
  show ?thesis
    using check_repeated_contact_in_batch [OF len(1), of sample_md5]
      check_repeated_contact_in_batch [OF len(2), of sample_md5] len
    by (simp add: Let_def split_beta sample_phones)
qed

section \<open>Missing critical fields\<close>

lemma sublist_across_separator:
  assumes "c \<notin> set w"
  shows "sublist w (a @ c # b) \<longleftrightarrow> sublist w a \<or> sublist w b"
proof
  assume "sublist w (a @ c # b)"
  then consider "sublist w a" | "sublist w (c # b)"
    | w1 w2 where "w = w1 @ w2" "suffix w1 a" "prefix w2 (c # b)"
    by (auto simp add: sublist_append)
  then show "sublist w a \<or> sublist w b"
  proof cases
    case 1
    then show ?thesis by simp
  next
    case 2
    then have "prefix w (c # b) \<or> sublist w b" by (simp add: sublist_Cons_right)
    moreover have "w = []" if "prefix w (c # b)"
      using that assms by (cases w) auto
    ultimately show ?thesis by auto
  next
    case 3
    have "w2 = []" using 3(1,3) assms by (cases w2) auto
    with 3 have "suffix w a" by simp
    then show ?thesis by (auto simp add: suffix_def)
  qed
next
  assume "sublist w a \<or> sublist w b"
  then show "sublist w (a @ c # b)"
    by (auto simp add: sublist_append sublist_Cons_right)
qed

lemma py_in_join:
  assumes "c \<notin> set w" and "w \<noteq> []"
  shows "py_in w (py_join [c] xs) \<longleftrightarrow> (\<exists>x \<in> set xs. py_in w x)"
proof (induction "[c]" xs rule: py_join.induct)
  case 1
  then show ?case using assms(2) by (simp add: py_in_def)
next
  case (2 x)
  then show ?case by (simp add: py_in_def)
next
  case (3 x y ys)
  then show ?case
    using sublist_across_separator [OF assms(1), of x "py_join [c] (y # ys)"]
    by (simp add: py_in_def)
qed

lemma missing_in_reasons:
  "py_in ''Missing'' (py_join '' '' rs) \<longleftrightarrow> (\<exists>reason \<in> set rs. py_in ''Missing'' reason)"
  by (rule py_in_join) simp_all

lemma py_in_missing:
  "py_in ''Missing'' ''Missing phone number''" "py_in ''Missing'' ''Missing email address''"
  "\<not> py_in ''Missing'' ''Invalid phone format''" "\<not> py_in ''Missing'' ''Invalid email format''"
  "\<not> py_in ''Missing'' ''Disposable email domain''"
  "\<not> py_in ''Missing'' ''Phone number repeated 3+ times''"
  "\<not> py_in ''Missing'' ''Email repeated 3+ times''"
  "\<not> py_in ''Missing'' ''Exact duplicate detected''"
  "\<not> py_in ''Missing'' ''Invalid or gibberish name''"
  by code_simp+

lemma missing_before_check:
  "(\<exists>reason \<in> set (reasons_of (fst (before_missing_check md5 T lead))). py_in ''Missing'' reason)
     \<longleftrightarrow> get_field lead ''phone'' = [] \<or> get_field lead ''email'' = []"
  by (auto simp add: before_missing_check_reasons py_in_missing)

lemma missing_fields_check_score:
  "score_of (missing_fields_check lead st) = score_of st +
     (if (get_field lead ''name'' = [] \<or> get_field lead ''email'' = [] \<or> get_field lead ''phone'' = [])
         \<and> \<not> py_in ''Missing'' (py_join '' '' (reasons_of st))
      then 10 else 0)"
  by (simp add: missing_fields_check_def Let_def)

lemma score_lead_score:
  "fraud_score (fst (score_lead md5 T lead)) =
     score_of (missing_fields_check lead (fst (before_missing_check md5 T lead)))"
  by (simp add: score_lead_def Let_def split_beta)

lemma critical_not_before:
  "''Missing critical fields'' \<notin> set (reasons_of (fst (before_missing_check md5 T lead)))"
  by (simp add: before_missing_check_reasons)

text \<open>
  C7. In the quality step of \<^verbatim>\<open>score_lead\<close> the award of 10 points with the reason
  "Missing critical fields" is made iff name, e-mail or phone is missing and none of the
  reasons collected earlier in the call contains "Missing"; the result's reasons and total
  are those reached before the check plus that award. Only the reason strings are
  inspected.
\<close>

theorem missing_critical_fields_award:
  "(let st = fst (before_missing_check md5 T lead);
        r = fst (score_lead md5 T lead);
        awarded = ((get_field lead ''name'' = [] \<or> get_field lead ''email'' = []
                      \<or> get_field lead ''phone'' = [])
                   \<and> \<not> (\<exists>reason \<in> set (reasons_of st). py_in ''Missing'' reason))
    in reasons r = reasons_of st @ (if awarded then [''Missing critical fields''] else [])
     \<and> fraud_score r = score_of st + (if awarded then 10 else 0)
     \<and> (''Missing critical fields'' \<in> set (reasons r) \<longleftrightarrow> awarded))"
  using critical_not_before [of md5 T lead]
  by (simp add: Let_def score_lead_reasons score_lead_score missing_fields_check_reasons
      missing_fields_check_score missing_in_reasons)

theorem missing_critical_fields_award_witness:
  "''Missing critical fields'' \<in> set (reasons (fst (score_lead sample_md5 new_tracker nameless_lead)))
   \<and> ''Missing critical fields'' \<notin> set (reasons (fst (score_lead sample_md5 new_tracker Map.empty)))"
proof -
  have a: "reasons_of (fst (before_missing_check sample_md5 new_tracker nameless_lead))
      = [''Invalid phone format'', ''Invalid or gibberish name'']"
    by code_simp
  have b: "reasons_of (fst (before_missing_check sample_md5 new_tracker Map.empty))
      = [''Missing phone number'', ''Missing email address'', ''Invalid or gibberish name'']"
    by code_simp
  have f: "get_field nameless_lead ''name'' = []" "get_field Map.empty ''name'' = []"
    by code_simp+
  show ?thesis
    using missing_critical_fields_award [of sample_md5 new_tracker nameless_lead]
      missing_critical_fields_award [of sample_md5 new_tracker Map.empty]
    by (simp add: Let_def a b f py_in_missing)
qed

section \<open>A lead with no name, e-mail or phone\<close>

text \<open>
  C8, as the code has it. A lead whose phone, e-mail and name are all missing, scored
  against a tracker that raises no repetition or duplicate flag (a new tracker is one),
  gets exactly 30 points: 10 for the phone, 10 for the e-mail, 10 for the name. The
  reason "Missing phone number" is already collected, so the award for missing critical
  fields is not made. The classification is SUSPICIOUS.
\<close>

theorem all_fields_missing_score:
  assumes "get_field lead ''phone'' = []" and "get_field lead ''email'' = []"
    and "get_field lead ''name'' = []"
    and "fst (check_repeated_contact T lead) = (False, False)"
    and "fst (find_exact_duplicate md5 T lead) = False"
  shows "fraud_score (fst (score_lead md5 T lead)) = 30
       \<and> classification (fst (score_lead md5 T lead)) = SUSPICIOUS
       \<and> is_fraudulent (fst (score_lead md5 T lead)) = False
       \<and> reasons (fst (score_lead md5 T lead))
           = [''Missing phone number'', ''Missing email address'', ''Invalid or gibberish name'']"
proof -
  have before: "reasons_of (fst (before_missing_check md5 T lead))
      = [''Missing phone number'', ''Missing email address'', ''Invalid or gibberish name'']"
    using assms by (simp add: before_missing_check_reasons)
  have rs: "reasons (fst (score_lead md5 T lead))
      = [''Missing phone number'', ''Missing email address'', ''Invalid or gibberish name'']"
    using assms by (simp add: score_lead_reasons missing_fields_check_reasons missing_in_reasons
        before py_in_missing del: py_join.simps)
  then have "fraud_score (fst (score_lead md5 T lead)) = 30"
    by (simp add: fraud_score_sum award_points_def)
  with rs show ?thesis
    by (simp add: score_lead_classify classify_def)
qed

theorem all_fields_missing_score_witness:
  "get_field Map.empty ''phone'' = [] \<and> get_field Map.empty ''email'' = []
   \<and> get_field Map.empty ''name'' = []
   \<and> fst (check_repeated_contact new_tracker Map.empty) = (False, False)
   \<and> fst (find_exact_duplicate sample_md5 new_tracker Map.empty) = False
   \<and> fraud_score (fst (score_lead sample_md5 new_tracker Map.empty)) = 30
   \<and> classification (fst (score_lead sample_md5 new_tracker Map.empty)) = SUSPICIOUS"
proof -
  have 1: "get_field Map.empty ''phone'' = []" by code_simp
  have 2: "get_field Map.empty ''email'' = []" by code_simp
  have 3: "get_field Map.empty ''name'' = []" by code_simp
  have 4: "fst (check_repeated_contact new_tracker Map.empty) = (False, False)" by code_simp
  have 5: "fst (find_exact_duplicate sample_md5 new_tracker Map.empty) = False" by code_simp
  show ?thesis
    using all_fields_missing_score [OF 1 2 3 4 5] 1 2 3 4 5 by blast
qed

text \<open>The total of such a lead on a new tracker does not reach 40.\<close>

theorem all_fields_missing_below_40:
  "\<not> 40 \<le> fraud_score (fst (score_lead sample_md5 new_tracker Map.empty))"
  by code_simp

section \<open>Rounding to binary64\<close>

lemma round_half_even_bounds:
  "\<lfloor>x\<rfloor> \<le> round_half_even x" "round_half_even x \<le> \<lfloor>x\<rfloor> + 1"
  by (simp_all add: round_half_even_def Let_def)

lemma round_half_even_of_int [simp]: "round_half_even (of_int n) = n"
  by (simp add: round_half_even_def)

lemma round_half_even_zero [simp]: "round_half_even 0 = 0"
  using round_half_even_of_int [of 0] by simp

lemma round_half_even_mono:
  assumes "x \<le> y"
  shows "round_half_even x \<le> round_half_even y"
proof (cases "\<lfloor>x\<rfloor> < \<lfloor>y\<rfloor>")
  case True
  then have "round_half_even x \<le> \<lfloor>y\<rfloor>"
    using round_half_even_bounds(2) [of x] by linarith
  then show ?thesis
    using round_half_even_bounds(1) [of y] by linarith
next
  case False
  with assms have "\<lfloor>x\<rfloor> = \<lfloor>y\<rfloor>"
    using floor_mono [of x y] by linarith
  with assms show ?thesis
    by (auto simp add: round_half_even_def Let_def)
qed

lemma bitlen_rat_bounds:
  assumes "0 < p"
  shows "(2::rat) powi (bitlen p - 1) \<le> of_int p" and "of_int p < (2::rat) powi bitlen p"
proof -
  have pos: "1 \<le> bitlen p"
    using assms by (simp add: bitlen_alt_def)
  from bitlen_bounds [OF assms]
  have "(of_int (2 ^ nat (bitlen p - 1)) :: rat) \<le> of_int p"
    and "(of_int p :: rat) < of_int (2 ^ nat (bitlen p))"
    by (simp_all only: of_int_le_iff of_int_less_iff)
  with pos show "(2::rat) powi (bitlen p - 1) \<le> of_int p" and "of_int p < (2::rat) powi bitlen p"
    by (simp_all add: power_int_nonneg_exp)
qed

lemma binade_bounds:
  assumes "0 < x"
  shows "2 powi binade x \<le> x" and "x < 2 powi (binade x + 1)"
proof -
  obtain p q where pq: "quotient_of x = (p, q)" by (cases "quotient_of x")
  then have q: "0 < q" and x: "x = of_int p / of_int q"
    by (simp_all add: quotient_of_denom_pos quotient_of_div)
  with assms have p: "0 < p" by (simp add: zero_less_divide_iff)
  define a where "a = bitlen p"
  define b where "b = bitlen q"
  note pa = bitlen_rat_bounds [OF p, folded a_def]
  note qb = bitlen_rat_bounds [OF q, folded b_def]
  have "(2::rat) powi (a - 1) / 2 powi b \<le> of_int p / of_int q"
    using pa(1) qb(2) p q by (intro frac_le) simp_all
  then have lo: "2 powi (a - b - 1) \<le> x"
    by (simp add: x power_int_diff)
  have "of_int p / of_int q < (2::rat) powi a / 2 powi (b - 1)"
    using pa(2) qb(1) p q by (intro frac_less) simp_all
  then have hi: "x < 2 powi (a - b + 1)"
    by (simp add: x power_int_diff power_int_add)
  show "2 powi binade x \<le> x"
    using lo by (simp add: binade_def pq a_def b_def Let_def)
  show "x < 2 powi (binade x + 1)"
    using hi by (auto simp add: binade_def pq a_def b_def not_le Let_def)
qed

lemma binade_mono:
  assumes "0 < x" and "x \<le> y"
  shows "binade x \<le> binade y"
proof (rule ccontr)
  assume "\<not> binade x \<le> binade y"
  then have "binade y + 1 \<le> binade x" by simp
  then have "(2::rat) powi (binade y + 1) \<le> 2 powi binade x"
    by (intro power_int_increasing) simp_all
  also have "\<dots> \<le> x" using assms(1) by (rule binade_bounds)
  also have "x \<le> y" by fact
  also have "y < 2 powi (binade y + 1)" using assms by (intro binade_bounds) simp
  finally show False by simp
qed

lemma ulp_facts:
  fixes e :: int
  defines "u \<equiv> (2::rat) powi (e - 52)"
  shows "0 < u" and "2 powi (e + 1) = 2 ^ 53 * u" and "2 powi e = 2 ^ 52 * u"
proof -
  show "0 < u" by (simp add: u_def)
  have "(2::rat) powi (53 + (e - 52)) = 2 powi 53 * 2 powi (e - 52)"
    by (rule power_int_add) simp
  moreover have "53 + (e - 52) = e + 1" by simp
  ultimately show "2 powi (e + 1) = 2 ^ 53 * u" by (simp only: u_def power_int_numeral)
  have "(2::rat) powi (52 + (e - 52)) = 2 powi 52 * 2 powi (e - 52)"
    by (rule power_int_add) simp
  moreover have "52 + (e - 52) = e" by simp
  ultimately show "2 powi e = 2 ^ 52 * u" by (simp only: u_def power_int_numeral)
qed


lemma binary64_zero [simp]: "binary64 0 = 0"
  by (simp add: binary64_def)

lemma binary64_nonneg:
  assumes "0 \<le> x"
  shows "0 \<le> binary64 x"
proof -
  have "0 \<le> round_half_even (x / u)" if "0 < u" for u :: rat
    using round_half_even_mono [of 0 "x / u"] assms that by simp
  then show ?thesis by (simp add: binary64_def Let_def)
qed

lemma normal_binade:
  assumes "min_normal \<le> x"
  shows "0 < x" and "- 1022 \<le> binade x"
proof -
  have "0 < min_normal" by (simp add: min_normal_def)
  with assms show x: "0 < x" by linarith
  show "- 1022 \<le> binade x"
  proof (rule ccontr)
    assume "\<not> - 1022 \<le> binade x"
    then have "binade x + 1 \<le> - 1022" by simp
    then have "(2::rat) powi (binade x + 1) \<le> min_normal"
      unfolding min_normal_def by (intro power_int_increasing) simp_all
    with assms binade_bounds(2) [OF x] show False by linarith
  qed
qed

lemma binary64_normal:
  assumes "min_normal \<le> x"
  shows "binary64 x =
     of_int (round_half_even (x / 2 powi (binade x - 52))) * 2 powi (binade x - 52)"
proof -
  note n = normal_binade [OF assms]
  from n(2) have "max (binade x) (- 1022) = binade x" by simp
  with n(1) show ?thesis by (simp add: binary64_def Let_def)
qed

lemma binary64_upper:
  assumes "min_normal \<le> x"
  shows "binary64 x \<le> 2 powi (binade x + 1)"
proof -
  define u where "u = (2::rat) powi (binade x - 52)"
  note u = ulp_facts [of "binade x", folded u_def]
  note x = normal_binade(1) [OF assms]
  have "x < 2 ^ 53 * u"
    using binade_bounds(2) [OF x] by (simp only: u(2))
  then have "x / u < of_int (2 ^ 53)"
    using u(1) by (simp add: pos_divide_less_eq)
  then have "round_half_even (x / u) \<le> round_half_even (of_int (2 ^ 53))"
    by (intro round_half_even_mono) simp
  then have "round_half_even (x / u) \<le> 2 ^ 53"
    by (simp only: round_half_even_of_int)
  then have "(of_int (round_half_even (x / u)) :: rat) \<le> of_int (2 ^ 53)"
    by (simp only: of_int_le_iff)
  then have "of_int (round_half_even (x / u)) * u \<le> of_int (2 ^ 53) * u"
    using u(1) by (intro mult_right_mono) simp_all
  then show ?thesis
    by (simp add: binary64_normal [OF assms] u(2) flip: u_def)
qed

lemma binary64_lower:
  assumes "min_normal \<le> x"
  shows "2 powi binade x \<le> binary64 x"
proof -
  define u where "u = (2::rat) powi (binade x - 52)"
  note u = ulp_facts [of "binade x", folded u_def]
  note x = normal_binade(1) [OF assms]
  have "2 ^ 52 * u \<le> x"
    using binade_bounds(1) [OF x] by (simp only: u(3))
  then have "of_int (2 ^ 52) \<le> x / u"
    using u(1) by (simp add: pos_le_divide_eq)
  then have "round_half_even (of_int (2 ^ 52)) \<le> round_half_even (x / u)"
    by (rule round_half_even_mono)
  then have "2 ^ 52 \<le> round_half_even (x / u)"
    by (simp only: round_half_even_of_int)
  then have "(of_int (2 ^ 52) :: rat) \<le> of_int (round_half_even (x / u))"
    by (simp only: of_int_le_iff)
  then have "of_int (2 ^ 52) * u \<le> of_int (round_half_even (x / u)) * u"
    using u(1) by (intro mult_right_mono) simp_all
  then show ?thesis
    by (simp add: binary64_normal [OF assms] u(3) flip: u_def)
qed

lemma binary64_stays_normal:
  assumes "min_normal \<le> x"
  shows "min_normal \<le> binary64 x"
proof -
  have "min_normal \<le> 2 powi binade x"
    unfolding min_normal_def
    using normal_binade(2) [OF assms] by (intro power_int_increasing) simp_all
  with binary64_lower [OF assms] show ?thesis by linarith
qed

lemma binary64_mono:
  assumes "x = 0 \<or> min_normal \<le> x" and "x \<le> y"
  shows "binary64 x \<le> binary64 y"
proof (cases "x = 0")
  case True
  with assms(2) show ?thesis by (simp add: binary64_nonneg)
next
  case False
  with assms have nx: "min_normal \<le> x" and ny: "min_normal \<le> y" by auto
  note x = normal_binade(1) [OF nx]
  have le: "binade x \<le> binade y" using x assms(2) by (rule binade_mono)
  show ?thesis
  proof (cases "binade x = binade y")
    case True
    define u where "u = (2::rat) powi (binade y - 52)"
    have u: "0 < u" by (simp add: u_def)
    then have "x / u \<le> y / u"
      using assms(2) by (simp add: divide_right_mono)
    then have "round_half_even (x / u) \<le> round_half_even (y / u)"
      by (rule round_half_even_mono)
    then have "(of_int (round_half_even (x / u)) :: rat) * u \<le> of_int (round_half_even (y / u)) * u"
      using u by (intro mult_right_mono) simp_all
    then show ?thesis
      by (simp add: binary64_normal [OF nx] binary64_normal [OF ny] True flip: u_def)
  next
    case False
    with le have "binade x + 1 \<le> binade y" by simp
    then have "(2::rat) powi (binade x + 1) \<le> 2 powi binade y"
      by (intro power_int_increasing) simp_all
    with binary64_upper [OF nx] binary64_lower [OF ny] show ?thesis by linarith
  qed
qed

lemma round_half_even_error: "\<bar>of_int (round_half_even y) - y\<bar> \<le> 1 / 2"
proof -
  have "of_int \<lfloor>y\<rfloor> \<le> y" and "y < of_int \<lfloor>y\<rfloor> + 1"
    by linarith+
  then show ?thesis
    by (auto simp add: round_half_even_def Let_def abs_le_iff)
qed

lemma binary64_error:
  assumes "min_normal \<le> x"
  shows "\<bar>binary64 x - x\<bar> \<le> x / 2 ^ 53"
proof -
  define u where "u = (2::rat) powi (binade x - 52)"
  note u = ulp_facts [of "binade x", folded u_def]
  note x = normal_binade(1) [OF assms]
  have lo: "2 ^ 52 * u \<le> x"
    using binade_bounds(1) [OF x] by (simp only: u(3))
  have "binary64 x - x = (of_int (round_half_even (x / u)) - x / u) * u"
    using u(1) by (simp add: binary64_normal [OF assms] algebra_simps flip: u_def)
  then have "\<bar>binary64 x - x\<bar> = \<bar>of_int (round_half_even (x / u)) - x / u\<bar> * u"
    using u(1) by (simp add: abs_mult)
  also have "\<dots> \<le> 1 / 2 * u"
    using u(1) round_half_even_error [of "x / u"] by (intro mult_right_mono) simp_all
  also have "\<dots> \<le> x / 2 ^ 53"
    using lo by simp
  finally show ?thesis .
qed

section \<open>Rounding and the refund thresholds\<close>

lemma normal_from_small:
  assumes "1 / 2 ^ 50 \<le> (x :: rat)"
  shows "min_normal \<le> x"
proof -
  have "min_normal \<le> 2 powi (- 50)"
    unfolding min_normal_def by (intro power_int_increasing) simp_all
  also have "(2::rat) powi (- 50) = 1 / 2 ^ 50"
    by (simp add: power_int_minus_divide)
  finally show ?thesis using assms by linarith
qed

lemma quotient_range:
  assumes "0 \<le> f" and "0 < t" and "t \<le> 2 ^ 50"
  shows "of_int f / of_int t = (0::rat) \<or> min_normal \<le> (of_int f / of_int t :: rat)"
proof (cases "f = 0")
  case True
  then show ?thesis by simp
next
  case False
  with assms have "1 \<le> f" by simp
  then have "(1::rat) \<le> of_int f" by simp
  moreover have "(of_int t :: rat) \<le> 2 ^ 50"
  proof -
    have "(of_int t :: rat) \<le> of_int (2 ^ 50)"
      using assms(3) by (simp only: of_int_le_iff)
    then show ?thesis by simp
  qed
  moreover have "(0::rat) < of_int t" using assms(2) by simp
  ultimately have "(1::rat) / 2 ^ 50 \<le> of_int f / of_int t"
    by (intro frac_le) simp_all
  then show ?thesis by (simp add: normal_from_small)
qed

lemma binary64_constants:
  "binary64 (1 / 4) = 1 / 4" "binary64 25 = 25"
  "binary64 (binary64 (1125899906842623 / 4503599627370496) * 100) < 25"
  "15 \<le> binary64 (binary64 (3 / 20) * 100)" "binary64 15 = 15"
  "binary64 (binary64 (3377699720527871 / 22517998136852480) * 100) < 15"
  by code_simp+

lemma python_percentage_mono:
  assumes "x = 0 \<or> min_normal \<le> x" and "x \<le> y"
  shows "binary64 (binary64 x * 100) \<le> binary64 (binary64 y * 100)"
proof -
  have le: "binary64 x \<le> binary64 y" using assms by (rule binary64_mono)
  have "binary64 x * 100 = 0 \<or> min_normal \<le> binary64 x * 100"
  proof (cases "x = 0")
    case True
    then show ?thesis by simp
  next
    case False
    with assms(1) have "min_normal \<le> x" by blast
    then have "min_normal \<le> binary64 x" by (rule binary64_stays_normal)
    moreover from this have "0 < binary64 x" by (rule normal_binade(1))
    ultimately have "min_normal \<le> binary64 x * 100" by linarith
    then show ?thesis ..
  qed
  then show ?thesis using le by (intro binary64_mono) simp_all
qed

lemma python_percentage_tiers:
  assumes "0 \<le> f" and "0 < t" and "t \<le> 2 ^ 50"
  shows "25 \<le> python_percentage f t \<longleftrightarrow> 25 \<le> 100 * of_int f / (of_int t :: rat)"
    and "15 \<le> python_percentage f t \<longleftrightarrow> 15 \<le> 100 * of_int f / (of_int t :: rat)"
proof -
  let ?x = "of_int f / (of_int t :: rat)"
  note x0 = quotient_range [OF assms]
  have exact25: "25 \<le> 100 * of_int f / (of_int t :: rat) \<longleftrightarrow> t \<le> 4 * f"
    using assms(2) by (simp add: pos_le_divide_eq flip: of_int_le_iff [where 'a = rat])
  have exact15: "15 \<le> 100 * of_int f / (of_int t :: rat) \<longleftrightarrow> 3 * t \<le> 20 * f"
    using assms(2) by (simp add: pos_le_divide_eq flip: of_int_le_iff [where 'a = rat])
  show "25 \<le> python_percentage f t \<longleftrightarrow> 25 \<le> 100 * of_int f / (of_int t :: rat)"
  proof (cases "t \<le> 4 * f")
    case True
    then have "1 / 4 \<le> ?x"
      using assms(2) by (simp add: pos_le_divide_eq flip: of_int_le_iff [where 'a = rat])
    moreover have "min_normal \<le> (1 / 4 :: rat)"
      by (rule normal_from_small) simp
    ultimately have "binary64 (binary64 (1 / 4) * 100) \<le> python_percentage f t"
      unfolding python_percentage_def by (intro python_percentage_mono) simp_all
    then have "25 \<le> python_percentage f t"
      by (simp add: binary64_constants)
    with True show ?thesis by (simp add: exact25)
  next
    case False
    with assms have "4503599627370496 * f \<le> 1125899906842623 * t" by simp
    then have "(of_int (4503599627370496 * f) :: rat) \<le> of_int (1125899906842623 * t)"
      by (simp only: of_int_le_iff)
    then have "?x \<le> 1125899906842623 / 4503599627370496"
      using assms(2) by (simp add: field_simps)
    then have "python_percentage f t
        \<le> binary64 (binary64 (1125899906842623 / 4503599627370496) * 100)"
      unfolding python_percentage_def using x0 by (intro python_percentage_mono)
    then have "python_percentage f t < 25"
      using binary64_constants(3) by linarith
    with False show ?thesis by (simp add: exact25)
  qed
  show "15 \<le> python_percentage f t \<longleftrightarrow> 15 \<le> 100 * of_int f / (of_int t :: rat)"
  proof (cases "3 * t \<le> 20 * f")
    case True
    then have "(of_int (3 * t) :: rat) \<le> of_int (20 * f)"
      by (simp only: of_int_le_iff)
    then have "3 / 20 \<le> ?x"
      using assms(2) by (simp add: field_simps)
    moreover have "min_normal \<le> (3 / 20 :: rat)"
      by (rule normal_from_small) simp
    ultimately have "binary64 (binary64 (3 / 20) * 100) \<le> python_percentage f t"
      unfolding python_percentage_def by (intro python_percentage_mono) simp_all
    then have "15 \<le> python_percentage f t"
      using binary64_constants(4) by linarith
    with True show ?thesis by (simp add: exact15)
  next
    case False
    with assms have "22517998136852480 * f \<le> 3377699720527871 * t" by simp
    then have "(of_int (22517998136852480 * f) :: rat) \<le> of_int (3377699720527871 * t)"
      by (simp only: of_int_le_iff)
    then have "?x \<le> 3377699720527871 / 22517998136852480"
      using assms(2) by (simp add: field_simps)
    then have "python_percentage f t
        \<le> binary64 (binary64 (3377699720527871 / 22517998136852480) * 100)"
      unfolding python_percentage_def using x0 by (intro python_percentage_mono)
    then have "python_percentage f t < 15"
      using binary64_constants(6) by linarith
    with False show ?thesis by (simp add: exact15)
  qed
qed

lemma python_percentage_error:
  assumes "0 \<le> f" and "0 < t" and "t \<le> 2 ^ 50"
  shows "\<bar>python_percentage f t - 100 * of_int f / of_int t\<bar>
           \<le> (100 * of_int f / of_int t) / 2 ^ 51"
proof -
  define x :: rat where "x = of_int f / of_int t"
  define q where "q = binary64 x"
  define r where "r = q * 100"
  have pp: "python_percentage f t = binary64 r"
    by (simp add: python_percentage_def x_def q_def r_def)
  have ex: "100 * of_int f / of_int t = 100 * x"
    by (simp add: x_def)
  have "\<bar>binary64 r - 100 * x\<bar> \<le> (100 * x) / 2 ^ 51"
  proof (cases "x = 0")
    case True
    then have "binary64 r = 0" by (simp add: q_def r_def)
    with True show ?thesis by simp
  next
    case False
    with quotient_range [OF assms] have nx: "min_normal \<le> x"
      by (simp add: x_def)
    note xpos = normal_binade(1) [OF nx]
    have e1: "\<bar>q - x\<bar> \<le> x / 2 ^ 53"
      unfolding q_def using nx by (rule binary64_error)
    have nq: "min_normal \<le> q"
      unfolding q_def using nx by (rule binary64_stays_normal)
    have qpos: "0 < q" using normal_binade(1) [OF nq] .
    have nr: "min_normal \<le> r"
      unfolding r_def using nq qpos by linarith
    have e2: "\<bar>binary64 r - r\<bar> \<le> r / 2 ^ 53"
      using nr by (rule binary64_error)
    have "x / 2 ^ 53 \<le> x" using xpos by (simp add: field_simps)
    with e1 have q2: "q \<le> 2 * x" by linarith
    have "r / 2 ^ 53 \<le> 200 * (x / 2 ^ 53)"
      unfolding r_def using q2 by (simp add: field_simps)
    with e1 e2 have "\<bar>binary64 r - 100 * x\<bar> \<le> 300 * (x / 2 ^ 53)"
      unfolding r_def by linarith
    also have "\<dots> \<le> (100 * x) / 2 ^ 51"
      using xpos by (simp add: field_simps)
    finally show ?thesis .
  qed
  then show ?thesis by (simp only: pp ex)
qed

lemma python_percentage_range:
  assumes "0 \<le> f" and "f \<le> t" and "0 < t" and "t \<le> 2 ^ 50"
  shows "0 \<le> python_percentage f t" and "python_percentage f t \<le> 100"
proof -
  let ?x = "of_int f / (of_int t :: rat)"
  have x0: "0 \<le> ?x" using assms by simp
  then show "0 \<le> python_percentage f t"
    unfolding python_percentage_def by (intro binary64_nonneg mult_nonneg_nonneg) simp_all
  have "?x \<le> 1" using assms by simp
  then have "python_percentage f t \<le> binary64 (binary64 1 * 100)"
    unfolding python_percentage_def
    using quotient_range [OF assms(1,3,4)] by (intro python_percentage_mono)
  also have "binary64 (binary64 1 * 100) = 100" by code_simp
  finally show "python_percentage f t \<le> 100" .
qed

text \<open>Values that Python prints for the same expressions: \<^verbatim>\<open>0.1\<close>, \<^verbatim>\<open>(7 / 100) * 100\<close>
  (7.000000000000001) and \<^verbatim>\<open>(1 / 6) * 100\<close> (16.666666666666664).\<close>

lemma binary64_examples:
  "binary64 (1 / 10) = 3602879701896397 / 36028797018963968"
  "python_percentage 7 100 = 7 + 1 / 2 ^ 50"
  "python_percentage 1 6 = 2345624805922133 / 140737488355328"
  by code_simp+

section \<open>The refund of a batch\<close>

text \<open>
  C2, as the code has it. For a non-empty batch \<^verbatim>\<open>calculate_batch_refund\<close> returns a
  record whose fraud percentage is the float that Python computes for the number of
  fraudulent rows over the number of rows, times 100: the quotient rounded to binary64,
  the product rounded again. A percentage of at least 25 gives the full refund at 100;
  from 15 up to 25 the partial refund at the percentage itself; below 15 no refund at 0.
  For a batch of at most \<open>2 ^ 50\<close> rows the float is within a relative error of
  \<open>1 / 2 ^ 51\<close> of the exact percentage, lies between 0 and 100, and passes the tests
  against 25 and 15 exactly when the exact percentage does.
\<close>

theorem calculate_batch_refund_tiers:
  assumes "leads_df \<noteq> []"
  shows "\<exists>info. calculate_batch_refund leads_df = Inr info
     \<and> fraud_percentage info
          = binary64 (binary64 (of_nat (length (filter is_fraudulent leads_df))
                                  / of_nat (length leads_df)) * 100)
     \<and> (fraud_percentage info \<ge> 25 \<longrightarrow>
           refund_type info = FULL_REFUND \<and> refund_percentage info = 100)
     \<and> (15 \<le> fraud_percentage info \<and> fraud_percentage info < 25 \<longrightarrow>
           refund_type info = PARTIAL_REFUND \<and> refund_percentage info = fraud_percentage info)
     \<and> (fraud_percentage info < 15 \<longrightarrow>
           refund_type info = NO_REFUND \<and> refund_percentage info = 0)
     \<and> (int (length leads_df) \<le> 2 ^ 50 \<longrightarrow>
           \<bar>fraud_percentage info
               - 100 * of_nat (length (filter is_fraudulent leads_df)) / of_nat (length leads_df)\<bar>
             \<le> (100 * of_nat (length (filter is_fraudulent leads_df)) / of_nat (length leads_df))
                  / 2 ^ 51
         \<and> (25 \<le> fraud_percentage info
              \<longleftrightarrow> 25 \<le> 100 * of_nat (length (filter is_fraudulent leads_df))
                            / (of_nat (length leads_df) :: rat))
         \<and> (15 \<le> fraud_percentage info
              \<longleftrightarrow> 15 \<le> 100 * of_nat (length (filter is_fraudulent leads_df))
                            / (of_nat (length leads_df) :: rat))
         \<and> 0 \<le> fraud_percentage info \<and> fraud_percentage info \<le> 100)"
proof -
  let ?f = "int (length (filter is_fraudulent leads_df))"
  let ?t = "int (length leads_df)"
  have f: "0 \<le> ?f" by simp
  have t: "0 < ?t" using assms by simp
  have ft: "?f \<le> ?t" by simp
  have "\<exists>info. calculate_batch_refund leads_df = Inr info
     \<and> fraud_percentage info = python_percentage ?f ?t
     \<and> (fraud_percentage info \<ge> 25 \<longrightarrow>
           refund_type info = FULL_REFUND \<and> refund_percentage info = 100)
     \<and> (15 \<le> fraud_percentage info \<and> fraud_percentage info < 25 \<longrightarrow>
           refund_type info = PARTIAL_REFUND \<and> refund_percentage info = fraud_percentage info)
     \<and> (fraud_percentage info < 15 \<longrightarrow>
           refund_type info = NO_REFUND \<and> refund_percentage info = 0)"
    using assms
    by (simp add: calculate_batch_refund_def py_truediv_def float_mul_def python_percentage_def
        Let_def)
  then obtain info where info: "calculate_batch_refund leads_df = Inr info"
    and pp: "fraud_percentage info = python_percentage ?f ?t"
    and tiers: "fraud_percentage info \<ge> 25 \<longrightarrow>
           refund_type info = FULL_REFUND \<and> refund_percentage info = 100"
      "15 \<le> fraud_percentage info \<and> fraud_percentage info < 25 \<longrightarrow>
           refund_type info = PARTIAL_REFUND \<and> refund_percentage info = fraud_percentage info"
      "fraud_percentage info < 15 \<longrightarrow>
           refund_type info = NO_REFUND \<and> refund_percentage info = 0"
    by blast
  have small: "\<bar>fraud_percentage info - 100 * of_int ?f / of_int ?t\<bar>
             \<le> (100 * of_int ?f / of_int ?t) / 2 ^ 51
         \<and> (25 \<le> fraud_percentage info \<longleftrightarrow> 25 \<le> 100 * of_int ?f / (of_int ?t :: rat))
         \<and> (15 \<le> fraud_percentage info \<longleftrightarrow> 15 \<le> 100 * of_int ?f / (of_int ?t :: rat))
         \<and> 0 \<le> fraud_percentage info \<and> fraud_percentage info \<le> 100"
    if b: "?t \<le> 2 ^ 50"
    unfolding pp
    using python_percentage_error [OF f t b] python_percentage_tiers [OF f t b]
      python_percentage_range [OF f ft t b]
    by blast
  have "fraud_percentage info
          = binary64 (binary64 (of_nat (length (filter is_fraudulent leads_df))
                                  / of_nat (length leads_df)) * 100)"
    by (simp add: pp python_percentage_def)
  with info tiers small show ?thesis
    by (intro exI [of _ info]) simp
qed

theorem calculate_batch_refund_tiers_witness:
  "batch_of 3 7 \<noteq> [] \<and> batch_of 2 8 \<noteq> [] \<and> batch_of 1 9 \<noteq> []
   \<and> int (length (batch_of 2 8)) \<le> 2 ^ 50
   \<and> (\<exists>info. calculate_batch_refund (batch_of 3 7) = Inr info \<and> fraud_percentage info = 30
         \<and> refund_type info = FULL_REFUND \<and> refund_percentage info = 100)
   \<and> (\<exists>info. calculate_batch_refund (batch_of 2 8) = Inr info \<and> fraud_percentage info = 20
         \<and> refund_type info = PARTIAL_REFUND \<and> refund_percentage info = 20
         \<and> 15 \<le> 100 * of_nat (length (filter is_fraudulent (batch_of 2 8)))
                    / (of_nat (length (batch_of 2 8)) :: rat))
   \<and> (\<exists>info. calculate_batch_refund (batch_of 1 9) = Inr info \<and> fraud_percentage info = 10
         \<and> refund_type info = NO_REFUND \<and> refund_percentage info = 0)"
proof -
  have ne: "batch_of 3 7 \<noteq> []" "batch_of 2 8 \<noteq> []" "batch_of 1 9 \<noteq> []"
    by code_simp+
  have small: "int (length (batch_of 2 8)) \<le> 2 ^ 50"
    by code_simp
  have pc: "binary64 (binary64 (of_nat (length (filter is_fraudulent (batch_of 3 7)))
                                  / of_nat (length (batch_of 3 7))) * 100) = 30"
    "binary64 (binary64 (of_nat (length (filter is_fraudulent (batch_of 2 8)))
                                  / of_nat (length (batch_of 2 8))) * 100) = 20"
    "binary64 (binary64 (of_nat (length (filter is_fraudulent (batch_of 1 9)))
                                  / of_nat (length (batch_of 1 9))) * 100) = 10"
    by code_simp+
  have full: "\<exists>info. calculate_batch_refund (batch_of 3 7) = Inr info \<and> fraud_percentage info = 30
         \<and> refund_type info = FULL_REFUND \<and> refund_percentage info = 100"
  proof -
    from calculate_batch_refund_tiers [OF ne(1)] obtain info where
      i: "calculate_batch_refund (batch_of 3 7) = Inr info"
      and p: "fraud_percentage info
          = binary64 (binary64 (of_nat (length (filter is_fraudulent (batch_of 3 7)))
                                  / of_nat (length (batch_of 3 7))) * 100)"
      and t: "fraud_percentage info \<ge> 25 \<longrightarrow>
           refund_type info = FULL_REFUND \<and> refund_percentage info = 100"
      by blast
    from p pc(1) have "fraud_percentage info = 30" by (simp only:)
    with i t show ?thesis by simp
  qed
  have partial: "\<exists>info. calculate_batch_refund (batch_of 2 8) = Inr info \<and> fraud_percentage info = 20
         \<and> refund_type info = PARTIAL_REFUND \<and> refund_percentage info = 20
         \<and> 15 \<le> 100 * of_nat (length (filter is_fraudulent (batch_of 2 8)))
                    / (of_nat (length (batch_of 2 8)) :: rat)"
  proof -
    from calculate_batch_refund_tiers [OF ne(2)] small obtain info where
      i: "calculate_batch_refund (batch_of 2 8) = Inr info"
      and p: "fraud_percentage info
          = binary64 (binary64 (of_nat (length (filter is_fraudulent (batch_of 2 8)))
                                  / of_nat (length (batch_of 2 8))) * 100)"
      and t: "15 \<le> fraud_percentage info \<and> fraud_percentage info < 25 \<longrightarrow>
           refund_type info = PARTIAL_REFUND \<and> refund_percentage info = fraud_percentage info"
      and e: "15 \<le> fraud_percentage info
              \<longleftrightarrow> 15 \<le> 100 * of_nat (length (filter is_fraudulent (batch_of 2 8)))
                            / (of_nat (length (batch_of 2 8)) :: rat)"
      by blast
    from p pc(2) have "fraud_percentage info = 20" by (simp only:)
    with i t e show ?thesis by simp
  qed
  have none: "\<exists>info. calculate_batch_refund (batch_of 1 9) = Inr info \<and> fraud_percentage info = 10
         \<and> refund_type info = NO_REFUND \<and> refund_percentage info = 0"
  proof -
    from calculate_batch_refund_tiers [OF ne(3)] obtain info where
      i: "calculate_batch_refund (batch_of 1 9) = Inr info"
      and p: "fraud_percentage info
          = binary64 (binary64 (of_nat (length (filter is_fraudulent (batch_of 1 9)))
                                  / of_nat (length (batch_of 1 9))) * 100)"
      and t: "fraud_percentage info < 15 \<longrightarrow>
           refund_type info = NO_REFUND \<and> refund_percentage info = 0"
      by blast
    from p pc(3) have "fraud_percentage info = 10" by (simp only:)
    with i t show ?thesis by simp
  qed
  show ?thesis using ne small full partial none by blast
qed

text \<open>
  One fraudulent row of six: the exact percentage is \<open>100 / 6\<close>, the code returns the
  float 16.666666666666664.
\<close>

theorem one_of_six_is_rounded:
  "calculate_batch_refund (batch_of 1 5) =
     Inr \<lparr>refund_type = PARTIAL_REFUND,
          refund_percentage = 2345624805922133 / 140737488355328,
          fraud_percentage = 2345624805922133 / 140737488355328,
          fraudulent_leads = 1, valid_leads = 5, total_leads = 6\<rparr>
   \<and> (2345624805922133 / 140737488355328 :: rat) \<noteq> 100 * 1 / 6"
  by code_simp

section \<open>The empty batch\<close>

text \<open>
  C9, as the code has it. \<^verbatim>\<open>calculate_batch_refund\<close> has no guard: it fails exactly on
  the empty batch, and the failure is the \<^verbatim>\<open>ZeroDivisionError\<close> of the division of the
  two counts. No refund record is returned for the empty batch.
\<close>

theorem calculate_batch_refund_fails_on_empty_only:
  "(calculate_batch_refund leads_df = Inl e) = (leads_df = [] \<and> e = ZeroDivisionError)"
  by (cases e) (simp add: calculate_batch_refund_def py_truediv_def Let_def split_beta)

theorem calculate_batch_refund_fails_on_empty_only_witness:
  "calculate_batch_refund [] = Inl ZeroDivisionError \<and> calculate_batch_refund (batch_of 1 9) \<noteq> Inl ZeroDivisionError"
proof -
  have "batch_of 1 9 \<noteq> []" by code_simp
  then show ?thesis
    using calculate_batch_refund_fails_on_empty_only [of "[]" ZeroDivisionError]
      calculate_batch_refund_fails_on_empty_only [of "batch_of 1 9" ZeroDivisionError]
    by simp
qed

text \<open>On the empty batch the division by zero is carried out and its error is the outcome.\<close>

theorem empty_batch_raises_zero_division:
  "py_truediv (int (length (filter is_fraudulent ([] :: score_result list))))
      (int (length ([] :: score_result list))) = Inl ZeroDivisionError
   \<and> calculate_batch_refund [] = Inl ZeroDivisionError"
  by (simp add: calculate_batch_refund_def py_truediv_def)

end
